theory Spec2Isabelle
  imports Complex_Main
begin

section \<open>JavaScript values and thrown errors\<close>

text \<open>
  The ledger's responses are untyped JSON (\<^verbatim>\<open>response.data\<close> is \<^verbatim>\<open>any\<close>), so the
  model carries JavaScript values as a datatype. \<open>JUndefined\<close> is what reading an absent
  property gives; a JSON number is a rational; an object is the list of its properties
  (the first binding of a key is the one read).
\<close>

datatype jsval =
    JUndefined
  | JNull
  | JBool bool
  | JNum rat
  | JStr string
  | JArr "jsval list"
  | JObj "(string \<times> jsval) list"

text \<open>A thrown \<^verbatim>\<open>Error\<close> object: its \<^verbatim>\<open>name\<close> and its \<^verbatim>\<open>message\<close>.\<close>

datatype js_error = JsError (err_name: string) (err_message: string)

text \<open>\<^verbatim>\<open>Error.prototype.toString\<close>, which \<^verbatim>\<open>String(error)\<close> calls.\<close>

definition error_toString :: "js_error \<Rightarrow> string" where
  "error_toString e =
     (if err_name e = [] then err_message e
      else if err_message e = [] then err_name e
      else err_name e @ '': '' @ err_message e)"

text \<open>\<^verbatim>\<open>error?.message || String(error)\<close>: the empty message is falsy.\<close>

definition error_text :: "js_error \<Rightarrow> string" where
  "error_text e = (if err_message e \<noteq> [] then err_message e else error_toString e)"

text \<open>JavaScript truthiness, as \<^verbatim>\<open>!x\<close>, \<^verbatim>\<open>x || y\<close> and \<^verbatim>\<open>Boolean(x)\<close> read it.\<close>

fun truthy :: "jsval \<Rightarrow> bool" where
  "truthy JUndefined = False"
| "truthy JNull = False"
| "truthy (JBool b) = b"
| "truthy (JNum n) = (n \<noteq> 0)"
| "truthy (JStr s) = (s \<noteq> [])"
| "truthy (JArr xs) = True"
| "truthy (JObj kvs) = True"

text \<open>
  A property read \<^verbatim>\<open>v.k\<close>. On \<^verbatim>\<open>undefined\<close> and \<^verbatim>\<open>null\<close> it throws a TypeError; on an
  object it gives the field or \<^verbatim>\<open>undefined\<close>; on a boolean, number, string or array it
  gives \<^verbatim>\<open>undefined\<close> for every key the ledger service reads (\<^verbatim>\<open>license_type\<close>,
  \<^verbatim>\<open>opt_in_status\<close>, \<^verbatim>\<open>rate_per_token\<close>, \<^verbatim>\<open>wallet_id\<close>, \<^verbatim>\<open>id\<close>: none is a built-in
  property).
\<close>

definition cannot_read :: "string \<Rightarrow> string \<Rightarrow> js_error" where
  "cannot_read what k =
     JsError ''TypeError''
       (''Cannot read properties of '' @ what @ '' (reading '' @ [CHR 0x27] @ k @ [CHR 0x27] @ '')'')"

fun get_prop :: "jsval \<Rightarrow> string \<Rightarrow> js_error + jsval" where
  "get_prop JUndefined k = Inl (cannot_read ''undefined'' k)"
| "get_prop JNull k = Inl (cannot_read ''null'' k)"
| "get_prop (JObj kvs) k = Inr (case map_of kvs k of Some v \<Rightarrow> v | None \<Rightarrow> JUndefined)"
| "get_prop v k = Inr JUndefined"

section \<open>The ledger service (services/ledger-service.ts)\<close>

subsection \<open>Types (types.ts)\<close>

datatype license_action = Allow | Deny | Unknown

text \<open>
  \<^verbatim>\<open>LedgerLicenseInfo\<close>. The fields \<^verbatim>\<open>url\<close> and \<^verbatim>\<open>error\<close> are \<open>lic_url\<close> and
  \<open>lic_error\<close> here (other records have fields of the same names). \<open>price\<close>, \<open>payto\<close> and
  \<open>license_version_id\<close> are copied from the ledger's record unchecked, so they are
  JavaScript values; an absent optional field is \<open>JUndefined\<close> or \<open>None\<close>.
\<close>

record LedgerLicenseInfo =
  lic_url :: string
  license_found :: bool
  action :: license_action
  price :: jsval
  payto :: jsval
  license_version_id :: jsval
  license_sig :: "string option"
  lic_error :: "string option"

text \<open>
  \<^verbatim>\<open>LedgerServiceConfig\<close>. Its numbers are read with \<^verbatim>\<open>parseInt\<close>; they are integers here,
  as are the values of \<^verbatim>\<open>Date.now()\<close> (milliseconds). \<open>apiKey\<close> is \<open>None\<close> when the
  environment variable is not set.
\<close>

record LedgerServiceConfig =
  apiUrl :: string
  apiKey :: "string option"
  enableTracking :: bool
  enableCache :: bool
  cacheTTLSeconds :: int
  licenseCheckTimeoutMs :: int
  licenseAcquireTimeoutMs :: int
  usageLogTimeoutMs :: int

record UsageHit =
  hit_url :: string
  tokens :: nat

record UsageLogRequest =
  gen_id :: string
  hits :: "UsageHit list"

text \<open>The parameters of \<^verbatim>\<open>acquireLicenseToken\<close>; the POST body has the same fields.\<close>

datatype LicenseStage = Infer | Embed | Tune | Train

datatype Distribution = Private | Public

datatype payment_method = Account_balance | X402

record acquire_params =
  acq_url :: string
  acq_stage :: LicenseStage
  acq_distribution :: Distribution
  estimatedTokens :: rat
  paymentMethod :: payment_method
  paymentProof :: "string option"
  paymentAmount :: "rat option"

subsection \<open>State\<close>

text \<open>
  The requests the service hands to its axios instance, in order. Each carries its
  timeout and its \<^verbatim>\<open>X-API-Key\<close> header.
\<close>

datatype ledger_request =
    GetLicenses string int "string option"
  | PostAcquire acquire_params int string
  | PostUsageLog UsageLogRequest int string

record cache_entry =
  license :: LedgerLicenseInfo
  expires :: int

text \<open>
  The service object: its configuration, its \<^verbatim>\<open>licenseCache\<close> map, and the log of the
  requests it has issued (the model's view of the network: what a request returns is
  given to each operation from outside).
\<close>

record LedgerService =
  config :: LedgerServiceConfig
  licenseCache :: "string \<rightharpoonup> cache_entry"
  requests :: "ledger_request list"

text \<open>\<^verbatim>\<open>this.config.apiKey\<close> where it is truthy (set, and not the empty string).\<close>

definition truthy_apiKey :: "LedgerServiceConfig \<Rightarrow> string option" where
  "truthy_apiKey c =
     (case apiKey c of None \<Rightarrow> None | Some k \<Rightarrow> if k = [] then None else Some k)"

definition has_apiKey :: "LedgerServiceConfig \<Rightarrow> bool" where
  "has_apiKey c = (truthy_apiKey c \<noteq> None)"

definition issue :: "ledger_request \<Rightarrow> LedgerService \<Rightarrow> LedgerService" where
  "issue r svc = svc\<lparr>requests := requests svc @ [r]\<rparr>"

subsection \<open>checkLicense\<close>

text \<open>The literal \<^verbatim>\<open>{ url, license_found: false, action: "unknown" }\<close>, with or without
  \<^verbatim>\<open>error\<close>.\<close>

definition unknown_license :: "string \<Rightarrow> string option \<Rightarrow> LedgerLicenseInfo" where
  "unknown_license u err =
     \<lparr>lic_url = u, license_found = False, action = Unknown, price = JUndefined,
      payto = JUndefined, license_version_id = JUndefined, license_sig = None,
      lic_error = err\<rparr>"

text \<open>
  \<^verbatim>\<open>licenseArray.find((l) => l.license_type === "ai-license")\<close>: the first element the
  callback accepts, \<^verbatim>\<open>undefined\<close> when there is none; the callback's property read throws
  on a \<^verbatim>\<open>null\<close> element it reaches.
\<close>

fun find_ai_license :: "jsval list \<Rightarrow> js_error + jsval" where
  "find_ai_license [] = Inr JUndefined"
| "find_ai_license (l # ls) =
     (case get_prop l ''license_type'' of
        Inl e \<Rightarrow> Inl e
      | Inr t \<Rightarrow> if t = JStr ''ai-license'' then Inr l else find_ai_license ls)"

text \<open>
  \<^verbatim>\<open>Array.isArray(response.data) ? response.data : [response.data]\<close>, then
  \<^verbatim>\<open>find(...) || licenseArray[0]\<close> (reading index 0 of an empty array gives
  \<^verbatim>\<open>undefined\<close>).
\<close>

definition licenseArray_of :: "jsval \<Rightarrow> jsval list" where
  "licenseArray_of d = (case d of JArr xs \<Rightarrow> xs | _ \<Rightarrow> [d])"

definition select_license :: "jsval \<Rightarrow> js_error + jsval" where
  "select_license d =
     (let licenseArray = licenseArray_of d in
      case find_ai_license licenseArray of
        Inl e \<Rightarrow> Inl e
      | Inr found \<Rightarrow>
          Inr (if truthy found then found
               else (case licenseArray of [] \<Rightarrow> JUndefined | x # _ \<Rightarrow> x)))"

definition action_of :: "jsval \<Rightarrow> license_action" where
  "action_of opt =
     (if opt = JStr ''opt-in'' then Allow
      else if opt = JStr ''opt-out'' then Deny
      else Unknown)"

text \<open>The verdict built from the selected record (the object literal \<^verbatim>\<open>license\<close>).\<close>

definition license_of_record :: "string \<Rightarrow> jsval \<Rightarrow> js_error + LedgerLicenseInfo" where
  "license_of_record u licenseData =
     (case get_prop licenseData ''opt_in_status'' of
        Inl e \<Rightarrow> Inl e
      | Inr opt \<Rightarrow>
     (case get_prop licenseData ''rate_per_token'' of
        Inl e \<Rightarrow> Inl e
      | Inr rate \<Rightarrow>
     (case get_prop licenseData ''wallet_id'' of
        Inl e \<Rightarrow> Inl e
      | Inr wallet \<Rightarrow>
     (case get_prop licenseData ''id'' of
        Inl e \<Rightarrow> Inl e
      | Inr ident \<Rightarrow>
          Inr \<lparr>lic_url = u,
               license_found = (opt = JStr ''opt-in'' \<or> opt = JStr ''opt-out''),
               action = action_of opt,
               price = rate, payto = wallet, license_version_id = ident,
               license_sig = None, lic_error = None\<rparr>))))"

text \<open>
  The synchronous start of \<^verbatim>\<open>checkLicense\<close>, up to the \<^verbatim>\<open>await\<close>: \<open>Some v\<close> when it
  returns \<open>v\<close> without a request (tracking disabled, or a cache entry that has not
  expired at \<open>now\<close>, the value of \<^verbatim>\<open>Date.now()\<close>), \<open>None\<close> when the GET is to be issued.
\<close>

definition checkLicense_start :: "LedgerService \<Rightarrow> int \<Rightarrow> string \<Rightarrow> LedgerLicenseInfo option" where
  "checkLicense_start svc now u =
     (if \<not> enableTracking (config svc) then Some (unknown_license u None)
      else if enableCache (config svc) then
        (case licenseCache svc u of
           Some cached \<Rightarrow> if expires cached > now then Some (license cached) else None
         | None \<Rightarrow> None)
      else None)"

definition license_request :: "LedgerService \<Rightarrow> string \<Rightarrow> ledger_request" where
  "license_request svc u =
     GetLicenses u (licenseCheckTimeoutMs (config svc)) (truthy_apiKey (config svc))"

text \<open>
  The \<^verbatim>\<open>try\<close> block once the GET has settled with \<open>resp\<close> (\<open>Inl\<close>: axios rejected;
  \<open>Inr\<close>: \<^verbatim>\<open>response.data\<close>). \<open>Inl e\<close> is an exception thrown inside the block; \<open>now\<close>
  is \<^verbatim>\<open>Date.now()\<close> at the \<^verbatim>\<open>licenseCache.set\<close>.
\<close>

definition checkLicense_try ::
  "LedgerService \<Rightarrow> string \<Rightarrow> js_error + jsval \<Rightarrow> int \<Rightarrow> js_error + LedgerLicenseInfo \<times> LedgerService"
where
  "checkLicense_try svc u resp now =
     (case resp of
        Inl e \<Rightarrow> Inl e
      | Inr d \<Rightarrow>
     (case select_license d of
        Inl e \<Rightarrow> Inl e
      | Inr licenseData \<Rightarrow>
          if \<not> truthy licenseData then Inr (unknown_license u None, svc)
          else
            (case license_of_record u licenseData of
               Inl e \<Rightarrow> Inl e
             | Inr lic \<Rightarrow>
                 Inr (lic,
                      if enableCache (config svc)
                      then svc\<lparr>licenseCache := (licenseCache svc)
                             (u \<mapsto> \<lparr>license = lic,
                                    expires = now + cacheTTLSeconds (config svc) * 1000\<rparr>)\<rparr>
                      else svc))))"

text \<open>The \<^verbatim>\<open>try\<close> with its \<^verbatim>\<open>catch\<close>: the rest of the call after the \<^verbatim>\<open>await\<close>. The result
  is the outcome of the promise \<^verbatim>\<open>checkLicense\<close> returned (\<open>Inl\<close>: rejected).\<close>

definition checkLicense_settle ::
  "LedgerService \<Rightarrow> string \<Rightarrow> js_error + jsval \<Rightarrow> int \<Rightarrow> (js_error + LedgerLicenseInfo) \<times> LedgerService"
where
  "checkLicense_settle svc u resp now =
     (case checkLicense_try svc u resp now of
        Inr (lic, svc') \<Rightarrow> (Inr lic, svc')
      | Inl e \<Rightarrow> (Inr (unknown_license u (Some (error_text e))), svc))"

text \<open>What one call of \<^verbatim>\<open>checkLicense\<close> meets: the clock at the cache check, the outcome
  of the GET if it is issued, and the clock at the cache store.\<close>

record check_env =
  now_check :: int
  response :: "js_error + jsval"
  now_store :: int

definition checkLicense ::
  "LedgerService \<Rightarrow> check_env \<Rightarrow> string \<Rightarrow> (js_error + LedgerLicenseInfo) \<times> LedgerService"
where
  "checkLicense svc env u =
     (case checkLicense_start svc (now_check env) u of
        Some v \<Rightarrow> (Inr v, svc)
      | None \<Rightarrow>
          checkLicense_settle (issue (license_request svc u) svc) u (response env) (now_store env))"

subsection \<open>acquireLicenseToken and logUsage\<close>

text \<open>Both throw before any request when \<^verbatim>\<open>this.config.apiKey\<close> is falsy; otherwise one
  POST, whose outcome \<open>resp\<close> is returned (or thrown) as it is.\<close>

definition acquireLicenseToken ::
  "LedgerService \<Rightarrow> acquire_params \<Rightarrow> js_error + jsval \<Rightarrow> (js_error + jsval) \<times> LedgerService"
where
  "acquireLicenseToken svc params resp =
     (case truthy_apiKey (config svc) of
        None \<Rightarrow>
          (Inl (JsError ''Error''
                  ''COPYRIGHTSH_LEDGER_API_KEY is required for /api/v1/licenses/acquire''), svc)
      | Some k \<Rightarrow>
          (resp, issue (PostAcquire params (licenseAcquireTimeoutMs (config svc)) k) svc))"

definition logUsage ::
  "LedgerService \<Rightarrow> UsageLogRequest \<Rightarrow> js_error + jsval \<Rightarrow> (js_error + unit) \<times> LedgerService"
where
  "logUsage svc payload resp =
     (case truthy_apiKey (config svc) of
        None \<Rightarrow>
          (Inl (JsError ''Error''
                  ''COPYRIGHTSH_LEDGER_API_KEY is required for /api/v1/usage/log''), svc)
      | Some k \<Rightarrow>
          (case resp of Inl e \<Rightarrow> Inl e | Inr d \<Rightarrow> Inr (),
           issue (PostUsageLog payload (usageLogTimeoutMs (config svc)) k) svc))"

section \<open>The search tool (index.ts)\<close>

subsection \<open>Types (types.ts)\<close>

text \<open>
  The request and the response of the upstream search. \<^verbatim>\<open>ExaSearchResult.url\<close> is declared
  a string, but the handler filters the URLs with \<^verbatim>\<open>Boolean\<close> and guards
  \<^verbatim>\<open>searchResp.results\<close> with \<^verbatim>\<open>|| []\<close>: a field the upstream JSON lacks is \<open>None\<close>.
  The fields \<^verbatim>\<open>id\<close>, \<^verbatim>\<open>url\<close>, \<^verbatim>\<open>text\<close> and \<^verbatim>\<open>results\<close> are \<open>res_id\<close>, \<open>res_url\<close>,
  \<open>res_text\<close> and \<open>search_results\<close> here.
\<close>

record ExaSearchRequest =
  sr_query :: string
  sr_numResults :: rat
  sr_type :: string
  sr_includeDomains :: "string list option"
  sr_excludeDomains :: "string list option"
  sr_text :: bool

record ExaSearchResult =
  res_id :: "string option"
  res_url :: "string option"
  title :: "string option"
  publishedDate :: "string option"
  author :: "string option"
  score :: "rat option"
  res_text :: "string option"

record ExaSearchResponse =
  search_results :: "ExaSearchResult list option"
  autopromptString :: "string option"
  requestId :: "string option"

text \<open>
  \<^verbatim>\<open>LicensedFetchResult\<close>, with its two nested objects (\<^verbatim>\<open>x402\<close> and \<^verbatim>\<open>acquire\<close>); its
  \<^verbatim>\<open>error\<close> is \<open>fetch_error\<close>.
\<close>

record x402_hints =
  hint_price :: "string option"
  hint_payto :: "string option"
  hint_stage :: "string option"
  hint_distribution :: "string option"
  facilitator_url :: "string option"

record acquire_info =
  licensed_url :: string
  cost :: rat
  currency :: string
  expires_at :: string
  acq_license_version_id :: rat
  acq_license_sig :: string

record LicensedFetchResult =
  requested_url :: string
  final_url :: string
  status :: int
  content_type :: "string option"
  content_text :: "string option"
  payment_attempted :: bool
  payment_required :: bool
  x402 :: "x402_hints option"
  acquire :: "acquire_info option"
  fetch_error :: "string option"

subsection \<open>TokenEstimator\<close>

text \<open>
  The tiktoken encoder is outside the sources: \<open>encode txt\<close> is
  \<^verbatim>\<open>this.encoder.encode(text).length\<close>, or the error it throws; the estimator holds
  \<open>None\<close> when the encoder could not be built. \<^verbatim>\<open>Math.ceil(text.length / 4)\<close> is
  \<open>(length txt + 3) div 4\<close>.
\<close>

type_synonym encoder = "string \<Rightarrow> js_error + nat"

definition estimate :: "encoder option \<Rightarrow> string \<Rightarrow> nat" where
  "estimate enc txt =
     (if txt = [] then 0
      else case enc of
             None \<Rightarrow> (length txt + 3) div 4
           | Some encode \<Rightarrow>
               (case encode txt of Inr n \<Rightarrow> n | Inl e \<Rightarrow> (length txt + 3) div 4))"

subsection \<open>The handler of the tool call\<close>

text \<open>
  The options handed to \<^verbatim>\<open>licensedFetchText\<close> (the \<^verbatim>\<open>ledger\<close> among them is the service
  object), and the arguments of the call once the handler has coerced them
  (\<^verbatim>\<open>String\<close>, \<^verbatim>\<open>Number\<close>, \<^verbatim>\<open>Boolean\<close>, and the defaults of \<^verbatim>\<open>??\<close>).
\<close>

record fetch_options =
  opt_stage :: LicenseStage
  opt_distribution :: Distribution
  opt_estimatedTokens :: rat
  opt_maxChars :: rat

record tool_args =
  arg_query :: string
  num_results :: rat
  search_type :: string
  include_domains :: "string list option"
  exclude_domains :: "string list option"
  fetch_flag :: bool
  arg_stage :: LicenseStage
  arg_distribution :: Distribution
  estimated_tokens :: rat
  max_chars :: rat

text \<open>
  The calls the handler makes to its collaborators, in order: the record of what it did,
  kept beside the state.
\<close>

datatype call =
    Call_search ExaSearchRequest
  | Call_checkLicense string
  | Call_licensedFetchText string fetch_options
  | Call_logUsage UsageLogRequest

text \<open>
  What one run of the handler meets. \<open>exa_search\<close> is \<^verbatim>\<open>ExaClient.search\<close> (one POST,
  whose error it lets through). \<open>license_env i\<close> is what the \<^verbatim>\<open>checkLicense\<close> call for the
  \<open>i\<close>-th URL meets, and \<open>arrival i\<close> orders the completions of the GETs (the calls run
  concurrently under \<^verbatim>\<open>Promise.all\<close>). \<open>licensedFetch i u opts\<close> is the outcome of the
  \<open>i\<close>-th call of \<^verbatim>\<open>licensedFetchText\<close>, whose code (services/licensed-fetcher.ts) is not
  part of the sources: \<open>Inl\<close> when its promise is rejected. \<open>randomUUID\<close> is the value
  of \<^verbatim>\<open>crypto.randomUUID()\<close> and \<open>usage_response\<close> the outcome of the usage-log POST.
\<close>

record tool_env =
  exa_search :: "ExaSearchRequest \<Rightarrow> js_error + ExaSearchResponse"
  license_env :: "nat \<Rightarrow> check_env"
  arrival :: "nat \<Rightarrow> nat"
  licensedFetch :: "nat \<Rightarrow> string \<Rightarrow> fetch_options \<Rightarrow> js_error + LicensedFetchResult"
  tiktoken :: "encoder option"
  randomUUID :: string
  usage_response :: "js_error + jsval"

text \<open>
  The response body: \<^verbatim>\<open>usageLog\<close>, an enriched result (\<^verbatim>\<open>{...r, license, fetched}\<close>: the
  spread copies \<open>r\<close>, the two fields after it override; \<open>None\<close> is \<^verbatim>\<open>undefined\<close>, which
  \<^verbatim>\<open>JSON.stringify\<close> leaves out), and \<^verbatim>\<open>responseBody\<close>.
\<close>

record usage_log_info =
  ok :: bool
  log_error :: "string option"
  log_gen_id :: string
  log_hits :: nat

record enriched_result =
  base :: ExaSearchResult
  res_license :: "LedgerLicenseInfo option"
  fetched :: "LicensedFetchResult option"

record exa_info =
  exa_num_results :: rat
  exa_type :: string
  request_id :: "string option"

record responseBody =
  body_query :: string
  exa :: exa_info
  results :: "enriched_result list"
  usage_log :: "usage_log_info option"

text \<open>
  \<^verbatim>\<open>results.map((r) => r.url).filter(Boolean)\<close>.
\<close>

definition result_urls :: "ExaSearchResult list \<Rightarrow> string list" where
  "result_urls rs = filter (\<lambda>u. u \<noteq> []) (List.map_filter res_url rs)"

text \<open>
  \<^verbatim>\<open>Promise.all(urls.map(async (u) => { const lic = await checkLicense(u);
  licenseMap.set(u, lic); }))\<close>. Every call runs to its first \<^verbatim>\<open>await\<close> before any other
  code: the starts happen in the order of the URLs, against the same cache, and each GET
  is issued then. The calls that returned at once set their entry of \<^verbatim>\<open>licenseMap\<close> first
  (microtasks, in order); the others continue when their GET settles, in the order of
  \<open>arrival\<close>, each finishing \<^verbatim>\<open>checkLicense\<close> on the service as it then is and setting
  its entry. A rejected call rejects the whole (the first rejection is the one thrown),
  while the other calls still run to their end.
\<close>

type_synonym started = "nat \<times> string \<times> LedgerLicenseInfo option"

definition start_all :: "LedgerService \<Rightarrow> (nat \<Rightarrow> check_env) \<Rightarrow> string list \<Rightarrow> started list" where
  "start_all svc envs urls =
     map (\<lambda>(i, u). (i, u, checkLicense_start svc (now_check (envs i)) u)) (enumerate 0 urls)"

definition issue_all :: "started list \<Rightarrow> LedgerService \<Rightarrow> LedgerService" where
  "issue_all started svc =
     fold (\<lambda>(i, u, s) svc'. case s of None \<Rightarrow> issue (license_request svc' u) svc' | Some v \<Rightarrow> svc')
       started svc"

definition set_immediate :: "started list \<Rightarrow> (string \<rightharpoonup> LedgerLicenseInfo)" where
  "set_immediate started =
     fold (\<lambda>(i, u, s) m. case s of Some v \<Rightarrow> m(u \<mapsto> v) | None \<Rightarrow> m) started Map.empty"

definition completion_order :: "(nat \<Rightarrow> nat) \<Rightarrow> started list \<Rightarrow> started list" where
  "completion_order arr started =
     sort_key (\<lambda>(i, u, s). arr i) (filter (\<lambda>(i, u, s). s = None) started)"

definition settle_one ::
  "(nat \<Rightarrow> check_env) \<Rightarrow> started \<Rightarrow>
   (js_error + (string \<rightharpoonup> LedgerLicenseInfo)) \<times> LedgerService \<Rightarrow>
   (js_error + (string \<rightharpoonup> LedgerLicenseInfo)) \<times> LedgerService"
where
  "settle_one envs p acc =
     (case p of (i, u, s) \<Rightarrow>
      case acc of (r, svc) \<Rightarrow>
      case checkLicense_settle svc u (response (envs i)) (now_store (envs i)) of
        (Inr lic, svc') \<Rightarrow> (case r of Inr m \<Rightarrow> Inr (m(u \<mapsto> lic)) | Inl e \<Rightarrow> Inl e, svc')
      | (Inl e, svc') \<Rightarrow> (case r of Inr m \<Rightarrow> Inl e | Inl e0 \<Rightarrow> Inl e0, svc'))"

definition license_phase ::
  "LedgerService \<Rightarrow> (nat \<Rightarrow> check_env) \<Rightarrow> (nat \<Rightarrow> nat) \<Rightarrow> string list \<Rightarrow>
   (js_error + (string \<rightharpoonup> LedgerLicenseInfo)) \<times> LedgerService"
where
  "license_phase svc envs arr urls =
     (let started = start_all svc envs urls in
      fold (settle_one envs) (completion_order arr started)
        (Inr (set_immediate started), issue_all started svc))"

text \<open>
  The variables of the fetch loop: \<^verbatim>\<open>fetchedByUrl\<close> (a plain object keyed by URL; the
  model's map agrees with it on every key the handler writes or reads), \<^verbatim>\<open>hits\<close>, and
  the calls of \<^verbatim>\<open>licensedFetchText\<close> made so far.
\<close>

record fetch_loop_state =
  fetchedByUrl :: "string \<rightharpoonup> LicensedFetchResult"
  loop_hits :: "UsageHit list"
  fetch_calls :: "call list"

text \<open>
  The body of the loop \<^verbatim>\<open>for (const u of urls)\<close> once \<^verbatim>\<open>licensedFetchText\<close> has returned
  \<open>f\<close>: \<^verbatim>\<open>fetchedByUrl[u] = fetched\<close>, then the usage hit when
  \<^verbatim>\<open>fetched.content_text && fetched.status >= 200 && fetched.status < 300\<close> and the
  estimate is positive.
\<close>

definition record_fetch ::
  "encoder option \<Rightarrow> string \<Rightarrow> LicensedFetchResult \<Rightarrow> fetch_loop_state \<Rightarrow> fetch_loop_state"
where
  "record_fetch enc u f st =
     (let st2 = st\<lparr>fetchedByUrl := (fetchedByUrl st)(u \<mapsto> f)\<rparr> in
      case content_text f of
        None \<Rightarrow> st2
      | Some body \<Rightarrow>
          if body \<noteq> [] \<and> status f \<ge> 200 \<and> status f < 300 then
            (let t = estimate enc body in
             if t > 0
             then st2\<lparr>loop_hits := loop_hits st2 @ [\<lparr>hit_url = u, tokens = t\<rparr>]\<rparr>
             else st2)
          else st2)"

text \<open>
  The loop: \<open>i\<close> counts the calls of \<^verbatim>\<open>licensedFetchText\<close>, which run one after the
  other. A rejected call ends the handler (\<open>Some e\<close>).
\<close>

fun fetch_loop ::
  "(nat \<Rightarrow> string \<Rightarrow> fetch_options \<Rightarrow> js_error + LicensedFetchResult) \<Rightarrow> encoder option \<Rightarrow>
   fetch_options \<Rightarrow> nat \<Rightarrow> string list \<Rightarrow> fetch_loop_state \<Rightarrow> js_error option \<times> fetch_loop_state"
where
  "fetch_loop fetcher enc opts i [] st = (None, st)"
| "fetch_loop fetcher enc opts i (u # us) st =
     (let st1 = st\<lparr>fetch_calls := fetch_calls st @ [Call_licensedFetchText u opts]\<rparr> in
      case fetcher i u opts of
        Inl e \<Rightarrow> (Some e, st1)
      | Inr f \<Rightarrow> fetch_loop fetcher enc opts (Suc i) us (record_fetch enc u f st1))"

definition fetch_init :: fetch_loop_state where
  "fetch_init = \<lparr>fetchedByUrl = Map.empty, loop_hits = [], fetch_calls = []\<rparr>"

text \<open>
  \<^verbatim>\<open>if (hits.length > 0)\<close>: one call of \<^verbatim>\<open>logUsage\<close> inside \<^verbatim>\<open>try\<close>, and the
  \<^verbatim>\<open>usageLog\<close> object of either outcome.
\<close>

definition usage_phase ::
  "LedgerService \<Rightarrow> string \<Rightarrow> js_error + jsval \<Rightarrow> UsageHit list \<Rightarrow>
   usage_log_info option \<times> call list \<times> LedgerService"
where
  "usage_phase svc genId resp hs =
     (if length hs > 0 then
        (let payload = \<lparr>gen_id = genId, hits = hs\<rparr> in
         case logUsage svc payload resp of
           (Inr done, svc') \<Rightarrow>
             (Some \<lparr>ok = True, log_error = None, log_gen_id = genId, log_hits = length hs\<rparr>,
              [Call_logUsage payload], svc')
         | (Inl e, svc') \<Rightarrow>
             (Some \<lparr>ok = False, log_error = Some (error_text e), log_gen_id = genId,
                    log_hits = length hs\<rparr>,
              [Call_logUsage payload], svc'))
      else (None, [], svc))"

text \<open>
  \<^verbatim>\<open>fetchedByUrl[r.url]\<close> converts its key to a property name: \<^verbatim>\<open>undefined\<close> becomes
  the string \<^verbatim>\<open>"undefined"\<close>. \<^verbatim>\<open>licenseMap\<close> is a \<^verbatim>\<open>Map\<close>, whose keys are not converted:
  it has no entry for \<^verbatim>\<open>undefined\<close>.
\<close>

definition property_key :: "string option \<Rightarrow> string" where
  "property_key k = (case k of None \<Rightarrow> ''undefined'' | Some s \<Rightarrow> s)"

definition enrich ::
  "(string \<rightharpoonup> LedgerLicenseInfo) \<Rightarrow> (string \<rightharpoonup> LicensedFetchResult) option \<Rightarrow>
   ExaSearchResult \<Rightarrow> enriched_result"
where
  "enrich licenseMap fetchedMap r =
     \<lparr>base = r,
      res_license = (case res_url r of None \<Rightarrow> None | Some u \<Rightarrow> licenseMap u),
      fetched = (case fetchedMap of None \<Rightarrow> None | Some m \<Rightarrow> m (property_key (res_url r)))\<rparr>"

text \<open>
  The outcome of a run: what the handler returns or throws, the calls it made, and the
  ledger service as it leaves it.
\<close>

record handler_run =
  reply :: "js_error + responseBody"
  calls :: "call list"
  ledger :: LedgerService

definition search_request :: "tool_args \<Rightarrow> ExaSearchRequest" where
  "search_request args =
     \<lparr>sr_query = arg_query args, sr_numResults = num_results args, sr_type = search_type args,
      sr_includeDomains = include_domains args, sr_excludeDomains = exclude_domains args,
      sr_text = False\<rparr>"

definition fetch_options_of :: "tool_args \<Rightarrow> fetch_options" where
  "fetch_options_of args =
     \<lparr>opt_stage = arg_stage args, opt_distribution = arg_distribution args,
      opt_estimatedTokens = estimated_tokens args, opt_maxChars = max_chars args\<rparr>"

definition compose ::
  "tool_args \<Rightarrow> ExaSearchResponse \<Rightarrow> ExaSearchResult list \<Rightarrow> (string \<rightharpoonup> LedgerLicenseInfo) \<Rightarrow>
   (string \<rightharpoonup> LicensedFetchResult) option \<Rightarrow> usage_log_info option \<Rightarrow> responseBody"
where
  "compose args searchResp rs licenseMap fetchedMap usageLog =
     \<lparr>body_query = arg_query args,
      exa = \<lparr>exa_num_results = num_results args, exa_type = search_type args,
             request_id = requestId searchResp\<rparr>,
      results = map (enrich licenseMap fetchedMap) rs,
      usage_log = usageLog\<rparr>"

text \<open>
  The handler of \<^verbatim>\<open>CallToolRequestSchema\<close>. An \<^verbatim>\<open>McpError\<close> is an \<^verbatim>\<open>Error\<close> named
  \<^verbatim>\<open>McpError\<close> whose message the SDK prefixes with its code.
\<close>

definition handle_call :: "LedgerService \<Rightarrow> tool_env \<Rightarrow> string \<Rightarrow> tool_args \<Rightarrow> handler_run" where
  "handle_call svc env name args =
     (if name \<noteq> ''copyrightish-exa-search'' then
        \<lparr>reply = Inl (JsError ''McpError'' (''MCP error -32601: Unknown tool: '' @ name)),
         calls = [], ledger = svc\<rparr>
      else if arg_query args = [] then
        \<lparr>reply = Inl (JsError ''McpError'' ''MCP error -32602: query is required''),
         calls = [], ledger = svc\<rparr>
      else
        (let req = search_request args in
         case exa_search env req of
           Inl e \<Rightarrow> \<lparr>reply = Inl e, calls = [Call_search req], ledger = svc\<rparr>
         | Inr searchResp \<Rightarrow>
             (let rs = (case search_results searchResp of None \<Rightarrow> [] | Some xs \<Rightarrow> xs);
                  urls = result_urls rs;
                  calls1 = Call_search req # map Call_checkLicense urls
              in case license_phase svc (license_env env) (arrival env) urls of
                   (Inl e, svc1) \<Rightarrow> \<lparr>reply = Inl e, calls = calls1, ledger = svc1\<rparr>
                 | (Inr licenseMap, svc1) \<Rightarrow>
                     if fetch_flag args then
                       (case fetch_loop (licensedFetch env) (tiktoken env) (fetch_options_of args)
                               0 urls fetch_init of
                          (Some e, st) \<Rightarrow>
                            \<lparr>reply = Inl e, calls = calls1 @ fetch_calls st, ledger = svc1\<rparr>
                        | (None, st) \<Rightarrow>
                            (case usage_phase svc1 (randomUUID env) (usage_response env) (loop_hits st) of
                               (usageLog, calls3, svc2) \<Rightarrow>
                                 \<lparr>reply = Inr (compose args searchResp rs licenseMap
                                                 (Some (fetchedByUrl st)) usageLog),
                                  calls = calls1 @ fetch_calls st @ calls3, ledger = svc2\<rparr>))
                     else
                       \<lparr>reply = Inr (compose args searchResp rs licenseMap None None),
                        calls = calls1, ledger = svc1\<rparr>)))"

section \<open>The licensed fetch engine (services/licensed-fetcher.ts)\<close>

text \<open>
  Modelled from the spec: \<^verbatim>\<open>licensedFetchText\<close>, the Licensed Fetch Engine. index.ts
  imports it from services/licensed-fetcher.ts, which is not part of the sources; the
  definitions of this section follow section 4.3 of the specification (the state machine
  \<open>START \<rightarrow> DIRECT_FETCH \<rightarrow> {DONE | PAYMENT_REQUIRED \<rightarrow> ACQUIRING \<rightarrow> {RETRY_FETCH \<rightarrow> DONE |
  ACQUIRE_FAILED \<rightarrow> DONE}}\<close>) and its data model. The handler above does not use them: it
  takes the outcome of each call from its environment.
\<close>

text \<open>
  Modelled from the spec: what an HTTP GET captures (final URL after redirects, status
  code, content type, text body), the value of the header that identifies the payment
  scheme, and the hints of the hint headers.
\<close>

record http_response =
  resp_url :: string
  resp_status :: int
  resp_content_type :: "string option"
  resp_body :: string
  payment_scheme :: "string option"
  resp_hints :: x402_hints

text \<open>
  Modelled from the spec: the Acquisition Grant, as far as the engine reads it.
\<close>

record AcquisitionGrant =
  grant_licensed_url :: string
  grant_license_version_id :: rat
  grant_license_sig :: string
  grant_expires_at :: string
  grant_cost :: rat
  grant_currency :: string

text \<open>
  Modelled from the spec: the outcomes of the direct GET, of the License Acquisition
  Client and of the retried GET (\<open>Inl\<close>: a transport error, or a failed acquisition).
\<close>

record engine_env =
  direct_get :: "string \<Rightarrow> js_error + http_response"
  acquire_client :: "acquire_params \<Rightarrow> js_error + AcquisitionGrant"
  retry_get :: "string \<Rightarrow> js_error + http_response"

text \<open>
  Modelled from the spec: the states of the engine.
\<close>

datatype engine_state =
    START
  | DIRECT_FETCH
  | PAYMENT_REQUIRED http_response
  | ACQUIRING http_response
  | RETRY_FETCH http_response AcquisitionGrant
  | ACQUIRE_FAILED http_response js_error
  | DONE LicensedFetchResult

text \<open>
  Modelled from the spec: the body truncated to the configured maximum character count.
\<close>

definition truncated :: "rat \<Rightarrow> string \<Rightarrow> string" where
  "truncated maxChars body = take (nat \<lfloor>maxChars\<rfloor>) body"

text \<open>
  Modelled from the spec: the result of a fetch that neither required nor attempted a
  payment.
\<close>

definition fetched_result ::
  "string \<Rightarrow> rat \<Rightarrow> http_response \<Rightarrow> LicensedFetchResult" where
  "fetched_result u maxChars r =
     \<lparr>requested_url = u, final_url = resp_url r, status = resp_status r,
      content_type = resp_content_type r,
      content_text = Some (truncated maxChars (resp_body r)),
      payment_attempted = False, payment_required = False,
      x402 = None, acquire = None, fetch_error = None\<rparr>"

text \<open>
  Modelled from the spec: a transport failure is recovered into a result record that
  carries the error. The specification does not give the other fields of that record;
  status 0 and no content are this model's choice.
\<close>

definition failed_result :: "string \<Rightarrow> js_error \<Rightarrow> LicensedFetchResult" where
  "failed_result u e =
     \<lparr>requested_url = u, final_url = u, status = 0, content_type = None, content_text = None,
      payment_attempted = False, payment_required = False,
      x402 = None, acquire = None, fetch_error = Some (error_text e)\<rparr>"

text \<open>
  Modelled from the spec: \<^verbatim>\<open>acquire_outcome\<close>, the grant's details.
\<close>

definition grant_info :: "AcquisitionGrant \<Rightarrow> acquire_info" where
  "grant_info g =
     \<lparr>licensed_url = grant_licensed_url g, cost = grant_cost g, currency = grant_currency g,
      expires_at = grant_expires_at g, acq_license_version_id = grant_license_version_id g,
      acq_license_sig = grant_license_sig g\<rparr>"

text \<open>
  Modelled from the spec: x402 signaling, a 402 status together with the header that
  identifies the payment scheme as \<^verbatim>\<open>x402\<close>.
\<close>

definition signals_x402 :: "http_response \<Rightarrow> bool" where
  "signals_x402 r = (resp_status r = 402 \<and> payment_scheme r = Some ''x402'')"

text \<open>
  Modelled from the spec: the transition rules of section 4.3. The acquisition uses the
  caller's stage, distribution and estimated tokens and the payment method
  \<^verbatim>\<open>account_balance\<close>; \<open>DONE\<close> is terminal.
\<close>

fun engine_step :: "engine_env \<Rightarrow> string \<Rightarrow> fetch_options \<Rightarrow> engine_state \<Rightarrow> engine_state" where
  "engine_step env u opts START = DIRECT_FETCH"
| "engine_step env u opts DIRECT_FETCH =
     (case direct_get env u of
        Inl e \<Rightarrow> DONE (failed_result u e)
      | Inr r \<Rightarrow>
          if resp_status r \<noteq> 402 then DONE (fetched_result u (opt_maxChars opts) r)
          else if payment_scheme r = Some ''x402'' then PAYMENT_REQUIRED r
          else DONE (fetched_result u (opt_maxChars opts) r))"
| "engine_step env u opts (PAYMENT_REQUIRED r) = ACQUIRING r"
| "engine_step env u opts (ACQUIRING r) =
     (case acquire_client env
             \<lparr>acq_url = u, acq_stage = opt_stage opts, acq_distribution = opt_distribution opts,
              estimatedTokens = opt_estimatedTokens opts, paymentMethod = Account_balance,
              paymentProof = None, paymentAmount = None\<rparr> of
        Inr g \<Rightarrow> RETRY_FETCH r g
      | Inl e \<Rightarrow> ACQUIRE_FAILED r e)"
| "engine_step env u opts (RETRY_FETCH r g) =
     (case retry_get env (grant_licensed_url g) of
        Inr r2 \<Rightarrow>
          DONE ((fetched_result u (opt_maxChars opts) r2)
                  \<lparr>payment_attempted := True, payment_required := True,
                   x402 := Some (resp_hints r), acquire := Some (grant_info g)\<rparr>)
      | Inl e \<Rightarrow>
          DONE ((failed_result u e)
                  \<lparr>payment_attempted := True, payment_required := True,
                   x402 := Some (resp_hints r), acquire := Some (grant_info g)\<rparr>))"
| "engine_step env u opts (ACQUIRE_FAILED r e) =
     DONE ((fetched_result u (opt_maxChars opts) r)
             \<lparr>payment_attempted := True, payment_required := True,
              x402 := Some (resp_hints r), fetch_error := Some (error_text e)\<rparr>)"
| "engine_step env u opts (DONE res) = DONE res"

text \<open>
  Modelled from the spec: the engine run for at most \<open>n\<close> steps; \<open>None\<close> when it has not
  reached \<open>DONE\<close> by then.
\<close>

fun engine_run :: "nat \<Rightarrow> engine_env \<Rightarrow> string \<Rightarrow> fetch_options \<Rightarrow> engine_state \<Rightarrow> LicensedFetchResult option" where
  "engine_run n env u opts (DONE res) = Some res"
| "engine_run 0 env u opts s = None"
| "engine_run (Suc n) env u opts s = engine_run n env u opts (engine_step env u opts s)"

text \<open>
  Modelled from the spec: one invocation of the engine on a URL. Five steps reach
  \<open>DONE\<close> on every path.
\<close>

definition licensedFetchText :: "engine_env \<Rightarrow> string \<Rightarrow> fetch_options \<Rightarrow> LicensedFetchResult option" where
  "licensedFetchText env u opts = engine_run 5 env u opts START"

section \<open>Vocabulary of the properties\<close>

text \<open>A ledger record is a JSON object; its type is the AI-license type when its
  \<^verbatim>\<open>license_type\<close> is the string \<^verbatim>\<open>ai-license\<close>.\<close>

fun is_record :: "jsval \<Rightarrow> bool" where
  "is_record (JObj kvs) = True"
| "is_record v = False"

definition is_ai_license :: "jsval \<Rightarrow> bool" where
  "is_ai_license r = (get_prop r ''license_type'' = Inr (JStr ''ai-license''))"

text \<open>A lookup fails with \<open>e\<close>: the GET was rejected with \<open>e\<close> (transport, timeout,
  status), or reading the records of the response threw \<open>e\<close>.\<close>

definition lookup_failure :: "check_env \<Rightarrow> js_error \<Rightarrow> bool" where
  "lookup_failure env e =
     (case response env of Inl e' \<Rightarrow> e' = e | Inr d \<Rightarrow> select_license d = Inl e)"

text \<open>A lookup that gives no record: it fails, or the response holds no record (the
  selected value is falsy).\<close>

definition lookup_failed :: "check_env \<Rightarrow> bool" where
  "lookup_failed env =
     (case response env of
        Inl e \<Rightarrow> True
      | Inr d \<Rightarrow> (case select_license d of Inl e \<Rightarrow> True | Inr l \<Rightarrow> \<not> truthy l))"

text \<open>
  The states the service object can be in: as its constructor leaves it (an empty cache, no
  request issued), and after any sequence of requests issued and of \<^verbatim>\<open>checkLicense\<close> calls
  finished. Every operation of the service and the handler of the tool move it within
  these states.
\<close>

inductive service_reachable :: "LedgerService \<Rightarrow> bool" where
  fresh: "service_reachable \<lparr>config = c, licenseCache = Map.empty, requests = []\<rparr>"
| issued: "service_reachable svc \<Longrightarrow> service_reachable (issue r svc)"
| settled: "service_reachable svc \<Longrightarrow>
            service_reachable (snd (checkLicense_settle svc u resp now))"

text \<open>
  A verdict built from a record: it is the object literal \<^verbatim>\<open>license\<close> of some truthy
  record, so it carries the URL and no error.
\<close>

definition from_record :: "string \<Rightarrow> LedgerLicenseInfo \<Rightarrow> bool" where
  "from_record u v =
     (lic_url v = u \<and> lic_error v = None \<and>
      (\<exists>r. truthy r \<and> license_of_record u r = Inr v))"

text \<open>
  The results and the URLs of a run: what the search returned (none when it failed), and
  the URLs the handler keeps.
\<close>

definition searched_results :: "tool_env \<Rightarrow> tool_args \<Rightarrow> ExaSearchResult list" where
  "searched_results env args =
     (case exa_search env (search_request args) of
        Inl e \<Rightarrow> []
      | Inr searchResp \<Rightarrow> (case search_results searchResp of None \<Rightarrow> [] | Some xs \<Rightarrow> xs))"

definition searched_urls :: "tool_env \<Rightarrow> tool_args \<Rightarrow> string list" where
  "searched_urls env args = result_urls (searched_results env args)"

text \<open>
  The calls of the Usage Recorder, and the URLs a call of the handler is about.
\<close>

fun is_logUsage :: "call \<Rightarrow> bool" where
  "is_logUsage (Call_logUsage p) = True"
| "is_logUsage c = False"

fun call_urls :: "call \<Rightarrow> string list" where
  "call_urls (Call_search req) = []"
| "call_urls (Call_checkLicense u) = [u]"
| "call_urls (Call_licensedFetchText u opts) = [u]"
| "call_urls (Call_logUsage batch) = map hit_url (hits batch)"

text \<open>
  A usage hit is justified by the \<open>j\<close>-th fetch of the loop: it is a fetch of the hit's
  URL that returned a non-empty body with a status in \<open>[200, 300)\<close>, and the hit's tokens
  are the positive estimate of that body.
\<close>

definition hit_justified ::
  "(nat \<Rightarrow> string \<Rightarrow> fetch_options \<Rightarrow> js_error + LicensedFetchResult) \<Rightarrow> encoder option \<Rightarrow>
   fetch_options \<Rightarrow> string list \<Rightarrow> UsageHit \<Rightarrow> bool" where
  "hit_justified fetcher enc opts urls h =
     (0 < tokens h \<and>
      (\<exists>j f body. j < length urls \<and> urls ! j = hit_url h \<and>
         fetcher j (hit_url h) opts = Inr f \<and> content_text f = Some body \<and> body \<noteq> [] \<and>
         200 \<le> status f \<and> status f < 300 \<and> tokens h = estimate enc body))"

text \<open>
  A search result without a URL (missing or empty), and the results of a reply (none when
  the handler threw).
\<close>

definition no_url :: "ExaSearchResult \<Rightarrow> bool" where
  "no_url r = (res_url r = None \<or> res_url r = Some [])"

definition reply_results :: "handler_run \<Rightarrow> enriched_result list" where
  "reply_results run = (case reply run of Inl e \<Rightarrow> [] | Inr body \<Rightarrow> results body)"

text \<open>
  Modelled from the spec: the first (direct) fetch observed a 402 with valid x402
  signaling.
\<close>

definition observed_x402 :: "engine_env \<Rightarrow> string \<Rightarrow> bool" where
  "observed_x402 env u = (case direct_get env u of Inl e \<Rightarrow> False | Inr r \<Rightarrow> signals_x402 r)"

section \<open>Example data\<close>

text \<open>A service with tracking and caching enabled, no credential, an empty cache and no
  request issued yet; a response of two records; a GET that times out.\<close>

definition demo_config :: LedgerServiceConfig where
  "demo_config =
     \<lparr>apiUrl = ''https://ledger.copyright.sh'', apiKey = None, enableTracking = True,
      enableCache = True, cacheTTLSeconds = 300, licenseCheckTimeoutMs = 5000,
      licenseAcquireTimeoutMs = 8000, usageLogTimeoutMs = 3000\<rparr>"

definition demo_service :: LedgerService where
  "demo_service = \<lparr>config = demo_config, licenseCache = Map.empty, requests = []\<rparr>"

definition demo_url :: string where
  "demo_url = ''https://example.com/a''"

definition record_cc :: jsval where
  "record_cc = JObj [(''license_type'', JStr ''cc-by''), (''opt_in_status'', JStr ''opt-out''),
                     (''id'', JNum 3)]"

definition record_ai :: jsval where
  "record_ai = JObj [(''license_type'', JStr ''ai-license''), (''opt_in_status'', JStr ''opt-in''),
                     (''rate_per_token'', JNum (1 / 10)), (''wallet_id'', JStr ''w-1''),
                     (''id'', JNum 7)]"

definition env_timeout :: check_env where
  "env_timeout =
     \<lparr>now_check = 1000,
      response = Inl (JsError ''AxiosError'' ''timeout of 5000ms exceeded''),
      now_store = 6000\<rparr>"

definition env_records :: check_env where
  "env_records =
     \<lparr>now_check = 7000, response = Inr (JArr [record_cc, record_ai]), now_store = 7040\<rparr>"

definition license_ai :: LedgerLicenseInfo where
  "license_ai =
     \<lparr>lic_url = demo_url, license_found = True, action = Allow, price = JNum (1 / 10),
      payto = JStr ''w-1'', license_version_id = JNum 7, license_sig = None,
      lic_error = None\<rparr>"

text \<open>
  A call of the tool with \<^verbatim>\<open>fetch: true\<close>; search results with and without a URL; a page
  fetched with status 200 and the record of a fetch that failed; an environment in which
  the search returns the given results, every license lookup times out and only
  \<open>demo_url\<close> can be fetched.
\<close>

definition tool_name :: string where
  "tool_name = ''copyrightish-exa-search''"

definition demo_args :: tool_args where
  "demo_args =
     \<lparr>arg_query = ''AI licensing news'', num_results = 10, search_type = ''neural'',
      include_domains = None, exclude_domains = None, fetch_flag = True,
      arg_stage = Infer, arg_distribution = Private, estimated_tokens = 1500,
      max_chars = 200000\<rparr>"

definition search_hit :: "string option \<Rightarrow> ExaSearchResult" where
  "search_hit u =
     \<lparr>res_id = None, res_url = u, title = None, publishedDate = None, author = None,
      score = None, res_text = None\<rparr>"

definition page_ok :: LicensedFetchResult where
  "page_ok =
     \<lparr>requested_url = demo_url, final_url = demo_url, status = 200,
      content_type = Some ''text/html'', content_text = Some ''hello world'',
      payment_attempted = False, payment_required = False, x402 = None, acquire = None,
      fetch_error = None\<rparr>"

definition page_invalid :: "string \<Rightarrow> LicensedFetchResult" where
  "page_invalid u =
     \<lparr>requested_url = u, final_url = u, status = 0, content_type = None, content_text = None,
      payment_attempted = False, payment_required = False, x402 = None, acquire = None,
      fetch_error = Some ''Invalid URL''\<rparr>"

definition demo_env :: "ExaSearchResult list \<Rightarrow> tool_env" where
  "demo_env rs =
     \<lparr>exa_search = (\<lambda>req. Inr \<lparr>search_results = Some rs, autopromptString = None,
                                 requestId = Some ''req-1''\<rparr>),
      license_env = (\<lambda>i. env_timeout),
      arrival = (\<lambda>i. i),
      licensedFetch = (\<lambda>i u opts. if u = demo_url then Inr page_ok else Inr (page_invalid u)),
      tiktoken = None,
      randomUUID = ''gen-1'',
      usage_response = Inr JNull\<rparr>"

definition hits_three :: "ExaSearchResult list" where
  "hits_three = [search_hit (Some demo_url), search_hit (Some []), search_hit None]"

definition hits_undefined :: "ExaSearchResult list" where
  "hits_undefined = [search_hit (Some ''undefined''), search_hit None]"

text \<open>
  Modelled from the spec: an environment of the engine in which the URL answers 402 with
  x402 signaling and the acquisition fails for want of a credential.
\<close>

definition demo_engine :: engine_env where
  "demo_engine =
     \<lparr>direct_get = (\<lambda>u. Inr \<lparr>resp_url = u, resp_status = 402,
                              resp_content_type = Some ''text/html'',
                              resp_body = ''Payment required'',
                              payment_scheme = Some ''x402'',
                              resp_hints = \<lparr>hint_price = Some ''0.10'', hint_payto = Some ''w-1'',
                                            hint_stage = Some ''infer'',
                                            hint_distribution = Some ''private'',
                                            facilitator_url = None\<rparr>\<rparr>),
      acquire_client = (\<lambda>p. Inl (JsError ''Error''
         ''COPYRIGHTSH_LEDGER_API_KEY is required for /api/v1/licenses/acquire'')),
      retry_get = (\<lambda>u. Inl (JsError ''TypeError'' ''fetch failed''))\<rparr>"

section \<open>Properties of the ledger service\<close>

subsection \<open>Auxiliary facts\<close>

lemma is_record_truthy: "is_record r \<Longrightarrow> truthy r"
  by (cases r) auto

lemma get_prop_truthy: "truthy v \<Longrightarrow> \<exists>x. get_prop v k = Inr x"
  by (cases v) auto

lemma license_of_record_truthy:
  "truthy r \<Longrightarrow> \<exists>lic. license_of_record u r = Inr lic"
  using get_prop_truthy[of r]
  apply (simp add: license_of_record_def split: sum.splits)
  by (metis Inl_Inr_False)

lemma find_ai_license_records:
  "\<forall>r\<in>set rs. is_record r \<Longrightarrow>
   find_ai_license rs = Inr (case List.find is_ai_license rs of Some r \<Rightarrow> r | None \<Rightarrow> JUndefined)"
proof (induction rs)
  case Nil
  then show ?case by simp
next
  case (Cons r rs)
  then obtain kvs where "r = JObj kvs" by (cases r) auto
  with Cons show ?case by (simp add: is_ai_license_def)
qed

lemma find_is_record: "List.find P rs = Some r \<Longrightarrow> \<forall>r\<in>set rs. is_record r \<Longrightarrow> truthy r"
  by (auto simp: find_Some_iff intro: is_record_truthy)

lemma select_license_records:
  assumes "licenseArray_of d = r0 # rs" "\<forall>r\<in>set (r0 # rs). is_record r"
  shows "select_license d = Inr (case List.find is_ai_license (r0 # rs) of Some r \<Rightarrow> r | None \<Rightarrow> r0)"
proof (cases "List.find is_ai_license (r0 # rs)")
  case None
  then show ?thesis using assms find_ai_license_records[OF assms(2)]
    by (simp add: select_license_def)
next
  case (Some r)
  then have "truthy r" using find_is_record assms(2) by blast
  then show ?thesis using Some assms find_ai_license_records[OF assms(2)]
    by (simp add: select_license_def)
qed

lemma checkLicense_try_raises:
  "checkLicense_try svc u resp now = Inl e \<longleftrightarrow>
     (case resp of Inl e' \<Rightarrow> e' = e | Inr d \<Rightarrow> select_license d = Inl e)"
proof (cases resp)
  case (Inl a)
  then show ?thesis by (auto simp: checkLicense_try_def)
next
  case (Inr d)
  show ?thesis
  proof (cases "select_license d")
    case (Inl a)
    then show ?thesis using Inr by (auto simp: checkLicense_try_def)
  next
    case (Inr l)
    then show ?thesis using \<open>resp = Inr d\<close> license_of_record_truthy[of l u]
      by (auto simp: checkLicense_try_def)
  qed
qed

lemma issue_simps [simp]:
  "requests (issue r svc) = requests svc @ [r]"
  "config (issue r svc) = config svc"
  "licenseCache (issue r svc) = licenseCache svc"
  "license_request (issue r svc) u = license_request svc u"
  by (simp_all add: issue_def license_request_def)

lemma start_issue [simp]:
  "checkLicense_start (issue r svc) now u = checkLicense_start svc now u"
  by (simp add: checkLicense_start_def issue_def)

lemma start_None_tracking:
  "checkLicense_start svc now u = None \<Longrightarrow> enableTracking (config svc)"
  by (auto simp: checkLicense_start_def split: if_splits)

lemma start_None_later:
  assumes "checkLicense_start svc now u = None" and "now \<le> now'"
  shows "checkLicense_start svc now' u = None"
  using assms by (auto simp: checkLicense_start_def split: if_splits option.splits)

lemma checkLicense_stored:
  assumes "enableCache (config svc)"
    and "checkLicense_start svc (now_check env) u = None"
    and "response env = Inr d" and "select_license d = Inr r" and "truthy r"
  shows "\<exists>lic. license_of_record u r = Inr lic \<and>
           checkLicense svc env u =
             (Inr lic,
              (issue (license_request svc u) svc)
                \<lparr>licenseCache := (licenseCache svc)
                   (u \<mapsto> \<lparr>license = lic,
                          expires = now_store env + cacheTTLSeconds (config svc) * 1000\<rparr>)\<rparr>)"
proof -
  obtain lic where "license_of_record u r = Inr lic"
    using license_of_record_truthy[OF assms(5)] by blast
  then show ?thesis using assms
    by (simp add: checkLicense_def checkLicense_settle_def checkLicense_try_def issue_def)
qed

lemma settle_requests:
  "requests (snd (checkLicense_settle svc u resp now)) = requests svc"
  by (simp add: checkLicense_settle_def checkLicense_try_def split: sum.splits prod.splits)

lemma checkLicense_requests:
  "requests (snd (checkLicense svc env u)) =
     (if checkLicense_start svc (now_check env) u = None
      then requests svc @ [license_request svc u] else requests svc)"
  by (auto simp: checkLicense_def settle_requests issue_def)

lemma checkLicense_transport_error:
  "checkLicense_start svc (now_check env) u = None \<Longrightarrow> response env = Inl e \<Longrightarrow>
   checkLicense svc env u =
     (Inr (unknown_license u (Some (error_text e))), issue (license_request svc u) svc)"
  by (simp add: checkLicense_def checkLicense_settle_def checkLicense_try_def)

lemma demo_start: "checkLicense_start demo_service t demo_url = None"
  by (simp add: checkLicense_start_def demo_service_def demo_config_def)

lemma demo_select: "select_license (JArr [record_cc, record_ai]) = Inr record_ai"
  by (simp add: select_license_def licenseArray_of_def record_cc_def record_ai_def)

lemma truthy_record_ai: "truthy record_ai"
  by (simp add: record_ai_def)

lemma demo_license: "license_of_record demo_url record_ai = Inr license_ai"
  by (simp add: license_of_record_def record_ai_def license_ai_def action_of_def)

lemma demo_lookup:
  "checkLicense_start svc (now_check env_records) demo_url = None \<Longrightarrow>
   fst (checkLicense svc env_records demo_url) = Inr license_ai"
  by (simp add: checkLicense_def checkLicense_settle_def checkLicense_try_def
        env_records_def demo_select demo_license truthy_record_ai)

lemma demo_rq: "license_request demo_service u = GetLicenses u 5000 None"
  by (simp add: license_request_def demo_service_def demo_config_def truthy_apiKey_def)

lemma demo_timeout:
  "checkLicense demo_service env_timeout demo_url =
     (Inr (unknown_license demo_url (Some ''timeout of 5000ms exceeded'')),
      issue (GetLicenses demo_url 5000 None) demo_service)"
proof -
  have "response env_timeout = Inl (JsError ''AxiosError'' ''timeout of 5000ms exceeded'')"
    by (simp add: env_timeout_def)
  from checkLicense_transport_error[OF demo_start this] show ?thesis
    by (simp add: demo_rq error_text_def)
qed

lemma license_of_record_fields:
  "license_of_record u r = Inr v \<Longrightarrow> lic_url v = u \<and> lic_error v = None"
  by (auto simp: license_of_record_def split: sum.splits)

lemma settle_cache:
  "licenseCache (snd (checkLicense_settle svc u resp now)) = licenseCache svc \<or>
   (\<exists>r v. truthy r \<and> license_of_record u r = Inr v \<and>
      licenseCache (snd (checkLicense_settle svc u resp now)) =
        (licenseCache svc)(u \<mapsto> \<lparr>license = v,
            expires = now + cacheTTLSeconds (config svc) * 1000\<rparr>))"
  by (auto simp: checkLicense_settle_def checkLicense_try_def split: sum.splits)

lemma reachable_cache:
  "service_reachable svc \<Longrightarrow> licenseCache svc u = Some c \<Longrightarrow> from_record u (license c)"
proof (induction arbitrary: u c rule: service_reachable.induct)
  case (fresh cfg)
  then show ?case by simp
next
  case (issued svc r)
  then show ?case by simp
next
  case (settled svc u' resp now)
  from settle_cache[of svc u' resp now] show ?case
  proof
    assume "licenseCache (snd (checkLicense_settle svc u' resp now)) = licenseCache svc"
    with settled show ?thesis by simp
  next
    assume "\<exists>r v. truthy r \<and> license_of_record u' r = Inr v \<and>
      licenseCache (snd (checkLicense_settle svc u' resp now)) =
        (licenseCache svc)(u' \<mapsto> \<lparr>license = v,
            expires = now + cacheTTLSeconds (config svc) * 1000\<rparr>)"
    then obtain r v where r: "truthy r" "license_of_record u' r = Inr v"
      and c: "licenseCache (snd (checkLicense_settle svc u' resp now)) =
        (licenseCache svc)(u' \<mapsto> \<lparr>license = v,
            expires = now + cacheTTLSeconds (config svc) * 1000\<rparr>)"
      by blast
    show ?thesis
    proof (cases "u = u'")
      case True
      with settled.prems c have "license c = v" by auto
      with r True license_of_record_fields[OF r(2)] show ?thesis
        by (auto simp: from_record_def)
    next
      case False
      with settled.prems c have "licenseCache svc u = Some c" by simp
      then show ?thesis by (rule settled.IH)
    qed
  qed
qed

lemma reachable_checkLicense:
  "service_reachable svc \<Longrightarrow> service_reachable (snd (checkLicense svc env u))"
  by (auto simp: checkLicense_def split: option.splits intro: service_reachable.intros)

lemma reachable_acquire:
  "service_reachable svc \<Longrightarrow> service_reachable (snd (acquireLicenseToken svc p resp))"
  by (auto simp: acquireLicenseToken_def split: option.splits intro: service_reachable.intros)

lemma reachable_logUsage:
  "service_reachable svc \<Longrightarrow> service_reachable (snd (logUsage svc p resp))"
  by (auto simp: logUsage_def split: option.splits intro: service_reachable.intros)

lemma demo_reachable: "service_reachable demo_service"
  unfolding demo_service_def by (rule service_reachable.fresh)

lemma demo_stored:
  "licenseCache (snd (checkLicense demo_service env_records demo_url)) demo_url =
     Some \<lparr>license = license_ai, expires = 307040\<rparr>"
proof -
  have h1: "enableCache (config demo_service)"
    by (simp add: demo_service_def demo_config_def)
  have h3: "response env_records = Inr (JArr [record_cc, record_ai])"
    by (simp add: env_records_def)
  have ttl: "now_store env_records + cacheTTLSeconds (config demo_service) * 1000 = 307040"
    by (simp add: env_records_def demo_service_def demo_config_def)
  from checkLicense_stored[OF h1 demo_start h3 demo_select truthy_record_ai]
  show ?thesis by (simp add: demo_license ttl)
qed

subsection \<open>checkLicense never raises\<close>

text \<open>
  C2. For every URL, \<^verbatim>\<open>checkLicense\<close> never raises: the promise it returns is never
  rejected. Whenever the lookup is made and fails with an error \<open>e\<close> (the GET is rejected,
  or reading the response throws), the verdict returned has \<open>license_found = False\<close>,
  \<open>action = Unknown\<close> and \<open>error\<close> set to the text of \<open>e\<close> (\<^verbatim>\<open>e.message\<close>, or
  \<^verbatim>\<open>String(e)\<close> when the message is empty), which is not empty for an error with a name or
  a message.
\<close>

theorem checkLicense_never_raises:
  "(\<exists>lic svc'. checkLicense svc env u = (Inr lic, svc')) \<and>
   (checkLicense_start svc (now_check env) u = None \<and> lookup_failure env e \<longrightarrow>
      (\<exists>lic svc'. checkLicense svc env u = (Inr lic, svc') \<and>
         lic_url lic = u \<and> license_found lic = False \<and> action lic = Unknown \<and>
         lic_error lic = Some (error_text e) \<and>
         (err_name e \<noteq> [] \<or> err_message e \<noteq> [] \<longrightarrow> error_text e \<noteq> [])))"
proof (intro conjI impI)
  show "\<exists>lic svc'. checkLicense svc env u = (Inr lic, svc')"
    by (auto simp: checkLicense_def checkLicense_settle_def split: option.splits sum.splits)
next
  assume a: "checkLicense_start svc (now_check env) u = None \<and> lookup_failure env e"
  let ?svc = "issue (license_request svc u) svc"
  from a have "checkLicense_try ?svc u (response env) (now_store env) = Inl e"
    by (simp add: checkLicense_try_raises lookup_failure_def)
  with a have "checkLicense svc env u = (Inr (unknown_license u (Some (error_text e))), ?svc)"
    by (simp add: checkLicense_def checkLicense_settle_def)
  moreover have "err_name e \<noteq> [] \<or> err_message e \<noteq> [] \<longrightarrow> error_text e \<noteq> []"
    by (auto simp: error_text_def error_toString_def)
  ultimately show "\<exists>lic svc'. checkLicense svc env u = (Inr lic, svc') \<and>
         lic_url lic = u \<and> license_found lic = False \<and> action lic = Unknown \<and>
         lic_error lic = Some (error_text e) \<and>
         (err_name e \<noteq> [] \<or> err_message e \<noteq> [] \<longrightarrow> error_text e \<noteq> [])"
    by (simp add: unknown_license_def)
qed

theorem checkLicense_never_raises_witness:
  "checkLicense_start demo_service (now_check env_timeout) demo_url = None \<and>
   lookup_failure env_timeout (JsError ''AxiosError'' ''timeout of 5000ms exceeded'') \<and>
   (\<exists>lic svc'. checkLicense demo_service env_timeout demo_url = (Inr lic, svc') \<and>
      lic_url lic = demo_url \<and> license_found lic = False \<and> action lic = Unknown \<and>
      lic_error lic = Some ''timeout of 5000ms exceeded'')"
proof -
  let ?e = "JsError ''AxiosError'' ''timeout of 5000ms exceeded''"
  have h: "checkLicense_start demo_service (now_check env_timeout) demo_url = None \<and>
           lookup_failure env_timeout ?e"
    by (simp add: demo_start lookup_failure_def env_timeout_def)
  have t: "error_text ?e = ''timeout of 5000ms exceeded''"
    by (simp add: error_text_def)
  from checkLicense_never_raises[of demo_service env_timeout demo_url ?e] h
  show ?thesis unfolding t by blast
qed

subsection \<open>The opt-in status decides action and found\<close>

text \<open>
  C4. For every record \<open>r\<close> that \<^verbatim>\<open>checkLicense\<close> selects from a response, the verdict's
  action is \<open>Allow\<close> when the record's \<^verbatim>\<open>opt_in_status\<close> is \<^verbatim>\<open>"opt-in"\<close>, \<open>Deny\<close> when
  it is \<^verbatim>\<open>"opt-out"\<close> and \<open>Unknown\<close> for any other value, and \<open>license_found\<close> is true
  exactly when the status is one of the two.
\<close>

theorem checkLicense_maps_opt_in_status:
  assumes "checkLicense_start svc (now_check env) u = None"
    and "response env = Inr d"
    and "select_license d = Inr r"
    and "truthy r"
  shows "\<exists>opt lic svc'. get_prop r ''opt_in_status'' = Inr opt \<and>
           checkLicense svc env u = (Inr lic, svc') \<and>
           action lic = (if opt = JStr ''opt-in'' then Allow
                         else if opt = JStr ''opt-out'' then Deny else Unknown) \<and>
           license_found lic = (opt = JStr ''opt-in'' \<or> opt = JStr ''opt-out'')"
proof -
  obtain opt where opt: "get_prop r ''opt_in_status'' = Inr opt"
    using get_prop_truthy[OF assms(4)] by blast
  obtain lic where lic: "license_of_record u r = Inr lic"
    using license_of_record_truthy[OF assms(4)] by blast
  have "action lic = action_of opt \<and>
        license_found lic = (opt = JStr ''opt-in'' \<or> opt = JStr ''opt-out'')"
    using lic opt by (auto simp: license_of_record_def split: sum.splits)
  moreover have "\<exists>svc'. checkLicense svc env u = (Inr lic, svc')"
    using assms lic
    by (simp add: checkLicense_def checkLicense_settle_def checkLicense_try_def)
  ultimately show ?thesis using opt by (auto simp: action_of_def)
qed

theorem checkLicense_maps_opt_in_status_witness:
  "checkLicense_start demo_service (now_check env_records) demo_url = None \<and>
   response env_records = Inr (JArr [record_cc, record_ai]) \<and>
   select_license (JArr [record_cc, record_ai]) = Inr record_ai \<and> truthy record_ai \<and>
   get_prop record_ai ''opt_in_status'' = Inr (JStr ''opt-in'') \<and>
   (\<exists>lic svc'. checkLicense demo_service env_records demo_url = (Inr lic, svc') \<and>
      action lic = Allow \<and> license_found lic = True)"
proof -
  have h1: "checkLicense_start demo_service (now_check env_records) demo_url = None"
    by (rule demo_start)
  have h2: "response env_records = Inr (JArr [record_cc, record_ai])"
    by (simp add: env_records_def)
  have h4: "truthy record_ai" by (simp add: record_ai_def)
  have g: "get_prop record_ai ''opt_in_status'' = Inr (JStr ''opt-in'')"
    by (simp add: record_ai_def)
  from checkLicense_maps_opt_in_status[OF h1 h2 demo_select h4]
  have "\<exists>lic svc'. checkLicense demo_service env_records demo_url = (Inr lic, svc') \<and>
      action lic = Allow \<and> license_found lic = True"
    by (auto simp: g)
  with h1 h2 demo_select h4 g show ?thesis by simp
qed

subsection \<open>No credential, no request\<close>

text \<open>
  C6. When no ledger credential is configured (\<^verbatim>\<open>apiKey\<close> unset or empty),
  \<^verbatim>\<open>acquireLicenseToken\<close> and \<^verbatim>\<open>logUsage\<close> each fail, for every input, with the error that
  names the missing \<^verbatim>\<open>COPYRIGHTSH_LEDGER_API_KEY\<close> (the configuration error of the
  specification; the code throws a plain \<^verbatim>\<open>Error\<close>), and the service is left as it was: no
  request has been issued.
\<close>

theorem no_credential_fails_before_request:
  assumes "\<not> has_apiKey (config svc)"
  shows "acquireLicenseToken svc params resp =
           (Inl (JsError ''Error''
              ''COPYRIGHTSH_LEDGER_API_KEY is required for /api/v1/licenses/acquire''), svc) \<and>
         logUsage svc payload resp' =
           (Inl (JsError ''Error''
              ''COPYRIGHTSH_LEDGER_API_KEY is required for /api/v1/usage/log''), svc) \<and>
         requests (snd (acquireLicenseToken svc params resp)) = requests svc \<and>
         requests (snd (logUsage svc payload resp')) = requests svc"
  using assms by (simp add: acquireLicenseToken_def logUsage_def has_apiKey_def)

theorem no_credential_fails_before_request_witness:
  "\<not> has_apiKey (config demo_service) \<and>
   fst (acquireLicenseToken demo_service
          \<lparr>acq_url = demo_url, acq_stage = Infer, acq_distribution = Private,
           estimatedTokens = 1500, paymentMethod = Account_balance, paymentProof = None,
           paymentAmount = None\<rparr> (Inr JNull)) =
     Inl (JsError ''Error''
            ''COPYRIGHTSH_LEDGER_API_KEY is required for /api/v1/licenses/acquire'') \<and>
   fst (logUsage demo_service
          \<lparr>gen_id = ''g-1'', hits = [\<lparr>hit_url = demo_url, tokens = 12\<rparr>]\<rparr> (Inr JNull)) =
     Inl (JsError ''Error'' ''COPYRIGHTSH_LEDGER_API_KEY is required for /api/v1/usage/log'') \<and>
   requests (snd (logUsage demo_service
          \<lparr>gen_id = ''g-1'', hits = [\<lparr>hit_url = demo_url, tokens = 12\<rparr>]\<rparr> (Inr JNull))) = []"
proof -
  have h: "\<not> has_apiKey (config demo_service)"
    by (simp add: has_apiKey_def truthy_apiKey_def demo_service_def demo_config_def)
  have r: "requests demo_service = []" by (simp add: demo_service_def)
  from no_credential_fails_before_request[OF h] h r show ?thesis by simp
qed

subsection \<open>Which record is selected\<close>

text \<open>
  C8. When the response holds one or many records (a JSON object, or a non-empty array of
  JSON objects), the verdict of \<^verbatim>\<open>checkLicense\<close> is the one built from the first record
  whose type is the AI-license type if there is such a record, and from the first record
  of the response otherwise.
\<close>

theorem checkLicense_selects_record:
  assumes "checkLicense_start svc (now_check env) u = None"
    and "response env = Inr d"
    and "licenseArray_of d = r0 # rs"
    and "\<forall>r\<in>set (r0 # rs). is_record r"
  shows "fst (checkLicense svc env u) =
           license_of_record u
             (case List.find is_ai_license (r0 # rs) of Some r \<Rightarrow> r | None \<Rightarrow> r0)"
proof -
  let ?sel = "case List.find is_ai_license (r0 # rs) of Some r \<Rightarrow> r | None \<Rightarrow> r0"
  have sel: "select_license d = Inr ?sel"
    using assms(3,4) by (rule select_license_records)
  have "?sel \<in> set (r0 # rs)"
    by (auto split: option.splits simp: find_Some_iff)
  then have t: "truthy ?sel" using assms(4) is_record_truthy by blast
  then obtain lic where lic: "license_of_record u ?sel = Inr lic"
    using license_of_record_truthy by blast
  show ?thesis
    using assms(1,2) sel t lic
    by (simp add: checkLicense_def checkLicense_settle_def checkLicense_try_def)
qed

theorem checkLicense_selects_record_witness:
  "checkLicense_start demo_service (now_check env_records) demo_url = None \<and>
   response env_records = Inr (JArr [record_cc, record_ai]) \<and>
   licenseArray_of (JArr [record_cc, record_ai]) = [record_cc, record_ai] \<and>
   is_record record_cc \<and> is_record record_ai \<and>
   \<not> is_ai_license record_cc \<and> is_ai_license record_ai \<and>
   fst (checkLicense demo_service env_records demo_url) = Inr license_ai"
proof -
  have h1: "checkLicense_start demo_service (now_check env_records) demo_url = None"
    by (rule demo_start)
  have h2: "response env_records = Inr (JArr [record_cc, record_ai])"
    by (simp add: env_records_def)
  have h3: "licenseArray_of (JArr [record_cc, record_ai]) = [record_cc, record_ai]"
    by (simp add: licenseArray_of_def)
  have h4: "\<forall>r\<in>set [record_cc, record_ai]. is_record r"
    by (simp add: record_cc_def record_ai_def)
  have ai: "\<not> is_ai_license record_cc \<and> is_ai_license record_ai"
    by (simp add: is_ai_license_def record_cc_def record_ai_def)
  from checkLicense_selects_record[OF h1 h2 h3 h4] ai
  have "fst (checkLicense demo_service env_records demo_url) = Inr license_ai"
    by (simp add: demo_license)
  with h1 h2 h3 h4 ai show ?thesis by simp
qed

subsection \<open>Cached verdicts\<close>

text \<open>
  C5, as amended. With caching enabled, when a call of \<^verbatim>\<open>checkLicense\<close> for a URL made the
  lookup and obtained a record (so that its verdict was stored), a later call for the same
  URL before the entry's expiry (the time of the store plus the TTL) returns the same
  verdict and leaves the service unchanged, so it issues no request; a later call at or
  after the expiry issues exactly one request.
\<close>

theorem checkLicense_cached_until_expiry:
  assumes "enableCache (config svc)"
    and "checkLicense_start svc (now_check env1) u = None"
    and "response env1 = Inr d" and "select_license d = Inr r" and "truthy r"
    and "checkLicense svc env1 u = (v1, svc1)"
  shows "(now_check env2 < now_store env1 + cacheTTLSeconds (config svc) * 1000 \<longrightarrow>
            checkLicense svc1 env2 u = (v1, svc1)) \<and>
         (now_store env1 + cacheTTLSeconds (config svc) * 1000 \<le> now_check env2 \<longrightarrow>
            requests (snd (checkLicense svc1 env2 u)) = requests svc1 @ [license_request svc1 u])"
proof -
  let ?exp = "now_store env1 + cacheTTLSeconds (config svc) * 1000"
  obtain lic where lic: "license_of_record u r = Inr lic"
    and first: "checkLicense svc env1 u =
             (Inr lic,
              (issue (license_request svc u) svc)
                \<lparr>licenseCache := (licenseCache svc) (u \<mapsto> \<lparr>license = lic, expires = ?exp\<rparr>)\<rparr>)"
    using checkLicense_stored[OF assms(1-5)] by blast
  have tr: "enableTracking (config svc)" using assms(2) by (rule start_None_tracking)
  from first assms(6) have v1: "v1 = Inr lic"
    and svc1: "svc1 = (issue (license_request svc u) svc)
                \<lparr>licenseCache := (licenseCache svc) (u \<mapsto> \<lparr>license = lic, expires = ?exp\<rparr>)\<rparr>"
    by simp_all
  have cfg: "config svc1 = config svc" by (simp add: svc1 issue_def)
  have entry: "licenseCache svc1 u = Some \<lparr>license = lic, expires = ?exp\<rparr>" by (simp add: svc1)
  have hit: "now_check env2 < ?exp \<Longrightarrow> checkLicense_start svc1 (now_check env2) u = Some lic"
    using tr assms(1) by (simp add: checkLicense_start_def cfg entry)
  have miss: "?exp \<le> now_check env2 \<Longrightarrow> checkLicense_start svc1 (now_check env2) u = None"
    using tr assms(1) by (simp add: checkLicense_start_def cfg entry)
  have req: "checkLicense_start svc1 (now_check env2) u = None \<Longrightarrow>
      requests (snd (checkLicense svc1 env2 u)) = requests svc1 @ [license_request svc1 u]"
    by (simp add: checkLicense_def checkLicense_settle_def checkLicense_try_def issue_def
             split: sum.splits prod.splits)
  show ?thesis using hit miss req v1 by (auto simp: checkLicense_def)
qed

theorem checkLicense_cached_until_expiry_witness:
  "enableCache (config demo_service) \<and>
   checkLicense_start demo_service (now_check env_records) demo_url = None \<and>
   fst (checkLicense demo_service env_records demo_url) = Inr license_ai \<and>
   (8000::int) < now_store env_records + cacheTTLSeconds (config demo_service) * 1000 \<and>
   checkLicense (snd (checkLicense demo_service env_records demo_url))
       (env_timeout\<lparr>now_check := 8000\<rparr>) demo_url =
     (Inr license_ai, snd (checkLicense demo_service env_records demo_url)) \<and>
   now_store env_records + cacheTTLSeconds (config demo_service) * 1000 \<le> (307040::int) \<and>
   length (requests (snd (checkLicense (snd (checkLicense demo_service env_records demo_url))
       (env_timeout\<lparr>now_check := 307040\<rparr>) demo_url))) = 2"
proof -
  obtain v1 svc1 where first: "checkLicense demo_service env_records demo_url = (v1, svc1)"
    by (cases "checkLicense demo_service env_records demo_url")
  have h1: "enableCache (config demo_service)"
    by (simp add: demo_service_def demo_config_def)
  have h2: "checkLicense_start demo_service (now_check env_records) demo_url = None"
    by (rule demo_start)
  have h3: "response env_records = Inr (JArr [record_cc, record_ai])"
    by (simp add: env_records_def)
  have h5: "truthy record_ai" by (simp add: record_ai_def)
  have ttl: "now_store env_records + cacheTTLSeconds (config demo_service) * 1000 = 307040"
    by (simp add: env_records_def demo_service_def demo_config_def)
  have v1: "v1 = Inr license_ai"
    using demo_lookup[OF h2] first by simp
  have r1: "length (requests svc1) = 1"
    using checkLicense_requests[of demo_service env_records demo_url] first h2
    by (simp add: demo_service_def)
  note cached = checkLicense_cached_until_expiry[OF h1 h2 h3 demo_select h5 first]
  have a: "checkLicense svc1 (env_timeout\<lparr>now_check := 8000\<rparr>) demo_url = (v1, svc1)"
    using cached[of "env_timeout\<lparr>now_check := 8000\<rparr>"] by (simp add: ttl)
  have b: "length (requests (snd (checkLicense svc1 (env_timeout\<lparr>now_check := 307040\<rparr>) demo_url))) = 2"
    using cached[of "env_timeout\<lparr>now_check := 307040\<rparr>"] r1 by (simp add: ttl)
  show ?thesis using h1 h2 a b v1 first ttl by simp
qed

text \<open>
  C5 as stated ("for every URL, a repeated call within the TTL returns the verdict of the
  first call without a new request") fails when the first lookup fails: nothing is stored,
  and the second call, one second later and well within the TTL of 300 seconds, issues a
  second request and returns another verdict.
\<close>

theorem repeated_call_after_failure_counterexample:
  "enableCache (config demo_service) \<and> enableTracking (config demo_service) \<and>
   now_check env_records < now_store env_timeout + cacheTTLSeconds (config demo_service) * 1000 \<and>
   fst (checkLicense demo_service env_timeout demo_url) =
     Inr (unknown_license demo_url (Some ''timeout of 5000ms exceeded'')) \<and>
   fst (checkLicense (snd (checkLicense demo_service env_timeout demo_url)) env_records demo_url) =
     Inr license_ai \<and>
   requests (snd (checkLicense demo_service env_timeout demo_url)) =
     [GetLicenses demo_url 5000 None] \<and>
   requests (snd (checkLicense (snd (checkLicense demo_service env_timeout demo_url))
      env_records demo_url)) =
     [GetLicenses demo_url 5000 None, GetLicenses demo_url 5000 None]"
proof -
  let ?svc1 = "issue (GetLicenses demo_url 5000 None) demo_service"
  have st: "checkLicense_start ?svc1 (now_check env_records) demo_url = None"
    by (simp add: demo_start)
  have second: "fst (checkLicense ?svc1 env_records demo_url) = Inr license_ai"
    using st by (rule demo_lookup)
  have reqs: "requests (snd (checkLicense ?svc1 env_records demo_url)) =
      [GetLicenses demo_url 5000 None, GetLicenses demo_url 5000 None]"
    by (simp add: checkLicense_requests demo_start demo_rq) (simp add: demo_service_def)
  have misc: "enableCache (config demo_service) \<and> enableTracking (config demo_service) \<and>
     now_check env_records < now_store env_timeout + cacheTTLSeconds (config demo_service) * 1000"
    by (simp add: demo_service_def demo_config_def env_records_def env_timeout_def)
  have r1: "requests ?svc1 = [GetLicenses demo_url 5000 None]"
    by (simp add: demo_service_def)
  show ?thesis
    using second reqs misc r1 by (simp add: demo_timeout)
qed

subsection \<open>Only verdicts built from a record are cached\<close>

text \<open>
  C9. In every state the service can reach, each cache entry is a verdict built from a
  record, stored under its URL and carrying no error. A call of \<^verbatim>\<open>checkLicense\<close> changes
  the cache only by storing, under its URL, the verdict built from the record it selected
  from a response (with tracking and caching enabled, after a lookup): with tracking
  disabled, after a failed lookup and after an empty response the cache is as before. So
  after a lookup that gave no record, the next call for the same URL, at a clock value not
  before the first, issues a fresh request, whatever the TTL.
\<close>

theorem failed_lookup_not_cached:
  assumes "checkLicense svc env u = (v, svc1)"
  shows "(service_reachable svc \<longrightarrow>
            (\<forall>u' c. licenseCache svc1 u' = Some c \<longrightarrow> from_record u' (license c))) \<and>
         (licenseCache svc1 \<noteq> licenseCache svc \<longrightarrow>
            enableTracking (config svc) \<and> enableCache (config svc) \<and>
            checkLicense_start svc (now_check env) u = None \<and>
            (\<exists>d l lic. response env = Inr d \<and> select_license d = Inr l \<and> truthy l \<and>
               license_of_record u l = Inr lic \<and> v = Inr lic \<and>
               licenseCache svc1 = (licenseCache svc)
                 (u \<mapsto> \<lparr>license = lic,
                        expires = now_store env + cacheTTLSeconds (config svc) * 1000\<rparr>))) \<and>
         (checkLicense_start svc (now_check env) u = None \<and> lookup_failed env \<and>
          now_check env \<le> now_check env' \<longrightarrow>
            licenseCache svc1 = licenseCache svc \<and>
            requests (snd (checkLicense svc1 env' u)) = requests svc1 @ [license_request svc1 u])"
proof -
  have inv: "\<forall>u' c. licenseCache svc1 u' = Some c \<longrightarrow> from_record u' (license c)"
    if "service_reachable svc"
  proof -
    from that have "service_reachable (snd (checkLicense svc env u))"
      by (rule reachable_checkLicense)
    then have "service_reachable svc1" by (simp add: assms)
    then show ?thesis by (blast intro: reachable_cache)
  qed
  have stored: "licenseCache svc1 \<noteq> licenseCache svc \<longrightarrow>
            enableTracking (config svc) \<and> enableCache (config svc) \<and>
            checkLicense_start svc (now_check env) u = None \<and>
            (\<exists>d l lic. response env = Inr d \<and> select_license d = Inr l \<and> truthy l \<and>
               license_of_record u l = Inr lic \<and> v = Inr lic \<and>
               licenseCache svc1 = (licenseCache svc)
                 (u \<mapsto> \<lparr>license = lic,
                        expires = now_store env + cacheTTLSeconds (config svc) * 1000\<rparr>))"
    using assms
    by (auto simp: checkLicense_def checkLicense_settle_def checkLicense_try_def issue_def
          start_None_tracking
          split: option.splits sum.splits if_splits)
  have next_call: "licenseCache svc1 = licenseCache svc \<and>
            requests (snd (checkLicense svc1 env' u)) = requests svc1 @ [license_request svc1 u]"
    if a: "checkLicense_start svc (now_check env) u = None \<and> lookup_failed env \<and>
          now_check env \<le> now_check env'"
  proof -
    from a have same: "svc1 = issue (license_request svc u) svc"
      using assms
      by (auto simp: checkLicense_def checkLicense_settle_def checkLicense_try_def
            lookup_failed_def split: sum.splits)
    have "checkLicense_start svc1 (now_check env) u = None"
      using a by (simp add: same)
    then have "checkLicense_start svc1 (now_check env') u = None"
      using a start_None_later by blast
    then have "requests (snd (checkLicense svc1 env' u)) = requests svc1 @ [license_request svc1 u]"
      by (simp add: checkLicense_requests)
    then show ?thesis by (simp add: same issue_def)
  qed
  show ?thesis using inv stored next_call by blast
qed

theorem failed_lookup_not_cached_witness:
  "service_reachable demo_service \<and>
   licenseCache (snd (checkLicense demo_service env_records demo_url)) demo_url =
     Some \<lparr>license = license_ai, expires = 307040\<rparr> \<and>
   from_record demo_url license_ai \<and>
   checkLicense_start demo_service (now_check env_timeout) demo_url = None \<and>
   lookup_failed env_timeout \<and> now_check env_timeout \<le> now_check env_records \<and>
   licenseCache (snd (checkLicense demo_service env_timeout demo_url)) = licenseCache demo_service \<and>
   requests (snd (checkLicense (snd (checkLicense demo_service env_timeout demo_url))
      env_records demo_url)) =
     [GetLicenses demo_url 5000 None, GetLicenses demo_url 5000 None]"
proof -
  let ?svc1 = "issue (GetLicenses demo_url 5000 None) demo_service"
  have first: "checkLicense demo_service env_timeout demo_url =
      (Inr (unknown_license demo_url (Some ''timeout of 5000ms exceeded'')), ?svc1)"
    by (rule demo_timeout)
  have h: "checkLicense_start demo_service (now_check env_timeout) demo_url = None \<and>
     lookup_failed env_timeout \<and> now_check env_timeout \<le> now_check env_records"
    by (simp add: demo_start lookup_failed_def env_timeout_def env_records_def)
  have r1: "requests ?svc1 @ [license_request ?svc1 demo_url] =
      [GetLicenses demo_url 5000 None, GetLicenses demo_url 5000 None]"
    by (simp add: demo_rq) (simp add: demo_service_def)
  from failed_lookup_not_cached[OF first, of env_records] h
  have a: "licenseCache ?svc1 = licenseCache demo_service \<and>
        requests (snd (checkLicense ?svc1 env_records demo_url)) =
          requests ?svc1 @ [license_request ?svc1 demo_url]"
    by blast
  obtain v2 svc2 where second: "checkLicense demo_service env_records demo_url = (v2, svc2)"
    by (cases "checkLicense demo_service env_records demo_url")
  from failed_lookup_not_cached[OF second] demo_reachable demo_stored second
  have b: "from_record demo_url license_ai"
    by (metis cache_entry.select_convs(1) snd_conv)
  show ?thesis using a b h r1 demo_reachable demo_stored by (simp add: first)
qed

section \<open>Properties of the search tool\<close>

subsection \<open>The license phase\<close>

lemma settle_Inr: "\<exists>lic svc'. checkLicense_settle svc u resp now = (Inr lic, svc')"
  by (auto simp: checkLicense_settle_def split: sum.splits)

lemma settle_one_Inr:
  "\<exists>m' svc'. settle_one envs p (Inr m, svc) = (Inr m', svc') \<and> config svc' = config svc"
proof -
  obtain i u s where p: "p = (i, u, s)" by (cases p)
  obtain lic svc' where s: "checkLicense_settle svc u (response (envs i)) (now_store (envs i)) = (Inr lic, svc')"
    using settle_Inr by blast
  have "config svc' = config svc"
    using s by (auto simp: checkLicense_settle_def checkLicense_try_def split: sum.splits if_splits)
  then show ?thesis using p s by (simp add: settle_one_def)
qed

lemma fold_settle_Inr:
  "\<exists>m' svc'. fold (settle_one envs) ps (Inr m, svc) = (Inr m', svc') \<and> config svc' = config svc"
proof (induction ps arbitrary: m svc)
  case Nil
  then show ?case by simp
next
  case (Cons p ps)
  obtain m1 svc1 where 1: "settle_one envs p (Inr m, svc) = (Inr m1, svc1)" "config svc1 = config svc"
    using settle_one_Inr by blast
  from Cons.IH[of m1 svc1] 1 show ?case by simp
qed

lemma issue_all_config: "config (issue_all started svc) = config svc"
  unfolding issue_all_def
  by (induction started arbitrary: svc) (auto split: option.splits)

lemma license_phase_Inr:
  "\<exists>m svc1. license_phase svc envs arr urls = (Inr m, svc1) \<and> config svc1 = config svc"
  unfolding license_phase_def Let_def
  using fold_settle_Inr[of envs _ _ "issue_all (start_all svc envs urls) svc"]
  by (metis issue_all_config)

lemma logUsage_config:
  "config svc1 = config svc \<Longrightarrow> fst (logUsage svc1 p r) = fst (logUsage svc p r)"
  by (simp add: logUsage_def split: option.splits)

lemma set_immediate_dom_aux:
  "dom (fold (\<lambda>(i, u, s) m. case s of Some v \<Rightarrow> m(u \<mapsto> v) | None \<Rightarrow> m) started m0)
     \<subseteq> dom m0 \<union> (\<lambda>(i, u, s). u) ` set started"
proof (induction started arbitrary: m0)
  case Nil
  then show ?case by simp
next
  case (Cons p ps)
  obtain i u s where p: "p = (i, u, s)" by (cases p)
  let ?F = "fold (\<lambda>(i, u, s) m. case s of Some v \<Rightarrow> m(u \<mapsto> v) | None \<Rightarrow> m) ps"
  let ?U = "(\<lambda>(i, u, s). u) ` set ps"
  show ?case
  proof (cases s)
    case None
    have "dom (?F m0) \<subseteq> dom m0 \<union> ?U" by (rule Cons.IH)
    then show ?thesis by (auto simp: p None)
  next
    case (Some v)
    have "dom (?F (m0(u \<mapsto> v))) \<subseteq> dom (m0(u \<mapsto> v)) \<union> ?U" by (rule Cons.IH)
    then have "dom (?F (m0(u \<mapsto> v))) \<subseteq> insert u (dom m0 \<union> ?U)" by auto
    then show ?thesis by (simp add: p Some)
  qed
qed

lemma set_immediate_dom: "dom (set_immediate started) \<subseteq> (\<lambda>(i, u, s). u) ` set started"
  using set_immediate_dom_aux[of started Map.empty] by (simp add: set_immediate_def)

lemma settle_one_dom:
  assumes "settle_one envs p (Inr m, svc) = (Inr m', svc')"
  shows "dom m' \<subseteq> dom m \<union> {(\<lambda>(i, u, s). u) p}"
proof -
  obtain i u s where p: "p = (i, u, s)" by (cases p)
  obtain lic svc2 where
    s: "checkLicense_settle svc u (response (envs i)) (now_store (envs i)) = (Inr lic, svc2)"
    using settle_Inr by blast
  have "settle_one envs p (Inr m, svc) = (Inr (m(u \<mapsto> lic)), svc2)"
    by (simp add: settle_one_def p s)
  with assms have "m' = m(u \<mapsto> lic)" by simp
  then show ?thesis by (simp add: p)
qed

lemma fold_settle_dom:
  assumes "fold (settle_one envs) ps (Inr m, svc) = (Inr m', svc')"
  shows "dom m' \<subseteq> dom m \<union> (\<lambda>(i, u, s). u) ` set ps"
  using assms
proof (induction ps arbitrary: m svc)
  case Nil
  then show ?case by simp
next
  case (Cons p ps)
  obtain m1 svc1 where 1: "settle_one envs p (Inr m, svc) = (Inr m1, svc1)"
    using settle_one_Inr by blast
  from Cons.prems 1 have "fold (settle_one envs) ps (Inr m1, svc1) = (Inr m', svc')" by simp
  from Cons.IH[OF this] settle_one_dom[OF 1] show ?case by auto
qed

lemma start_all_urls: "(\<lambda>(i, u, s). u) ` set (start_all svc envs urls) = set urls"
proof -
  have "map (\<lambda>(i, u, s). u) (start_all svc envs urls) = map snd (enumerate 0 urls)"
    by (simp add: start_all_def case_prod_unfold comp_def)
  then have "map (\<lambda>(i, u, s). u) (start_all svc envs urls) = urls" by simp
  then have "set (map (\<lambda>(i, u, s). u) (start_all svc envs urls)) = set urls" by simp
  then show ?thesis by (simp only: set_map)
qed

lemma license_phase_dom:
  assumes "license_phase svc envs arr urls = (Inr m, svc1)"
  shows "dom m \<subseteq> set urls"
proof -
  let ?st = "start_all svc envs urls"
  let ?U = "\<lambda>(i, u, s). u"
  have "set (completion_order arr ?st) \<subseteq> set ?st"
    unfolding completion_order_def by (simp only: set_sort) (rule filter_is_subset)
  then have "?U ` set (completion_order arr ?st) \<subseteq> ?U ` set ?st"
    by (rule image_mono)
  then have a: "?U ` set (completion_order arr ?st) \<subseteq> set urls"
    by (simp only: start_all_urls)
  have "dom (set_immediate ?st) \<subseteq> ?U ` set ?st" by (rule set_immediate_dom)
  then have b: "dom (set_immediate ?st) \<subseteq> set urls"
    by (simp only: start_all_urls)
  from assms have "fold (settle_one envs) (completion_order arr ?st)
      (Inr (set_immediate ?st), issue_all ?st svc) = (Inr m, svc1)"
    by (simp add: license_phase_def Let_def)
  then have "dom m \<subseteq> dom (set_immediate ?st) \<union> ?U ` set (completion_order arr ?st)"
    by (rule fold_settle_dom)
  with a b show ?thesis by (meson Un_least subset_trans)
qed

lemma reachable_issue_all:
  "service_reachable svc \<Longrightarrow> service_reachable (issue_all started svc)"
  unfolding issue_all_def
proof (induction started arbitrary: svc)
  case Nil
  then show ?case by simp
next
  case (Cons p ps)
  obtain i u s where p: "p = (i, u, s)" by (cases p)
  show ?case using Cons
    by (cases s) (auto simp: p intro: service_reachable.intros)
qed

lemma reachable_settle_one:
  "service_reachable (snd acc) \<Longrightarrow> service_reachable (snd (settle_one envs p acc))"
proof -
  assume a: "service_reachable (snd acc)"
  obtain i u s where p: "p = (i, u, s)" by (cases p)
  obtain r svc where acc: "acc = (r, svc)" by (cases acc)
  have "snd (settle_one envs p acc) =
      snd (checkLicense_settle svc u (response (envs i)) (now_store (envs i)))"
    by (simp add: settle_one_def p acc split: prod.splits sum.splits)
  with a acc show ?thesis by (simp add: service_reachable.settled)
qed

lemma reachable_fold_settle:
  "service_reachable (snd acc) \<Longrightarrow> service_reachable (snd (fold (settle_one envs) ps acc))"
  by (induction ps arbitrary: acc) (simp_all add: reachable_settle_one)

lemma reachable_license_phase:
  "service_reachable svc \<Longrightarrow> service_reachable (snd (license_phase svc envs arr urls))"
  by (simp add: license_phase_def Let_def reachable_fold_settle reachable_issue_all)

subsection \<open>The fetch loop\<close>

lemma record_fetch_simps [simp]:
  "fetch_calls (record_fetch enc u f st) = fetch_calls st"
  "fetchedByUrl (record_fetch enc u f st) = (fetchedByUrl st)(u \<mapsto> f)"
  by (simp_all add: record_fetch_def Let_def split: option.splits)

lemma record_fetch_hits:
  "loop_hits (record_fetch enc u f st) =
     (case content_text f of
        None \<Rightarrow> loop_hits st
      | Some body \<Rightarrow>
          if body \<noteq> [] \<and> 200 \<le> status f \<and> status f < 300 \<and> 0 < estimate enc body
          then loop_hits st @ [\<lparr>hit_url = u, tokens = estimate enc body\<rparr>]
          else loop_hits st)"
  by (simp add: record_fetch_def Let_def split: option.splits)

lemma fetch_loop_Cons:
  "fetch_loop fetcher enc opts i (u # us) st = (r, st') \<Longrightarrow> fetcher i u opts = Inr f \<Longrightarrow>
   fetch_loop fetcher enc opts (Suc i) us
     (record_fetch enc u f (st\<lparr>fetch_calls := fetch_calls st @ [Call_licensedFetchText u opts]\<rparr>))
   = (r, st')"
  by (simp add: Let_def)

lemma fetch_loop_Cons_fail:
  "fetch_loop fetcher enc opts i (u # us) st = (r, st') \<Longrightarrow> fetcher i u opts = Inl e \<Longrightarrow>
   r = Some e \<and> st' = st\<lparr>fetch_calls := fetch_calls st @ [Call_licensedFetchText u opts]\<rparr>"
  by (auto simp: Let_def)

lemma fetch_loop_hits:
  assumes "fetch_loop fetcher enc opts (length pre) us st = (r, st')"
    and "\<forall>h\<in>set (loop_hits st). hit_justified fetcher enc opts (pre @ us) h"
  shows "\<forall>h\<in>set (loop_hits st'). hit_justified fetcher enc opts (pre @ us) h"
  using assms
proof (induction us arbitrary: pre st)
  case Nil
  then show ?case by simp
next
  case (Cons u us)
  let ?st1 = "st\<lparr>fetch_calls := fetch_calls st @ [Call_licensedFetchText u opts]\<rparr>"
  show ?case
  proof (cases "fetcher (length pre) u opts")
    case (Inl e)
    from fetch_loop_Cons_fail[OF Cons.prems(1) Inl] Cons.prems(2) show ?thesis by simp
  next
    case (Inr f)
    let ?st3 = "record_fetch enc u f ?st1"
    have run: "fetch_loop fetcher enc opts (length (pre @ [u])) us ?st3 = (r, st')"
      using fetch_loop_Cons[OF Cons.prems(1) Inr] by simp
    have here: "(pre @ u # us) ! length pre = u" by simp
    have new: "hit_justified fetcher enc opts (pre @ u # us) \<lparr>hit_url = u, tokens = estimate enc body\<rparr>"
      if "content_text f = Some body" "body \<noteq> []" "200 \<le> status f" "status f < 300"
         "0 < estimate enc body" for body
      unfolding hit_justified_def using that Inr here
      by (intro conjI exI[of _ "length pre"] exI[of _ f] exI[of _ body]) simp_all
    have inv: "\<forall>h\<in>set (loop_hits ?st3). hit_justified fetcher enc opts ((pre @ [u]) @ us) h"
      using Cons.prems(2) new
      by (auto simp: record_fetch_hits split: option.splits)
    from Cons.IH[OF run inv] show ?thesis by simp
  qed
qed

lemma fetch_loop_calls:
  assumes "fetch_loop fetcher enc opts i us st = (r, st')"
    and "\<forall>c\<in>set (fetch_calls st). \<not> is_logUsage c"
  shows "\<forall>c\<in>set (fetch_calls st'). \<not> is_logUsage c"
  using assms
proof (induction us arbitrary: i st)
  case Nil
  then show ?case by simp
next
  case (Cons u us)
  let ?st1 = "st\<lparr>fetch_calls := fetch_calls st @ [Call_licensedFetchText u opts]\<rparr>"
  have st1: "\<forall>c\<in>set (fetch_calls ?st1). \<not> is_logUsage c"
    using Cons.prems(2) by simp
  show ?case
  proof (cases "fetcher i u opts")
    case (Inl e)
    from fetch_loop_Cons_fail[OF Cons.prems(1) Inl] st1 show ?thesis by simp
  next
    case (Inr f)
    from st1 have "\<forall>c\<in>set (fetch_calls (record_fetch enc u f ?st1)). \<not> is_logUsage c"
      by simp
    from Cons.IH[OF fetch_loop_Cons[OF Cons.prems(1) Inr] this] show ?thesis .
  qed
qed

lemma set_map_filter_iff:
  "y \<in> set (List.map_filter f xs) \<longleftrightarrow> (\<exists>x\<in>set xs. f x = Some y)"
  by (induction xs) (auto split: option.splits)

lemma result_urls_iff:
  "u \<in> set (result_urls rs) \<longleftrightarrow> u \<noteq> [] \<and> (\<exists>r\<in>set rs. res_url r = Some u)"
  by (auto simp: result_urls_def set_map_filter_iff)

lemma fetch_loop_urls:
  assumes "fetch_loop fetcher enc opts i us st = (r, st')"
    and "dom (fetchedByUrl st) \<subseteq> A" and "set us \<subseteq> A"
    and "\<forall>c\<in>set (fetch_calls st). set (call_urls c) \<subseteq> A"
    and "hit_url ` set (loop_hits st) \<subseteq> A"
  shows "dom (fetchedByUrl st') \<subseteq> A \<and> (\<forall>c\<in>set (fetch_calls st'). set (call_urls c) \<subseteq> A) \<and>
         hit_url ` set (loop_hits st') \<subseteq> A"
  using assms
proof (induction us arbitrary: i st)
  case Nil
  then show ?case by simp
next
  case (Cons u us)
  let ?st1 = "st\<lparr>fetch_calls := fetch_calls st @ [Call_licensedFetchText u opts]\<rparr>"
  have u: "u \<in> A" using Cons.prems(3) by simp
  have c1: "\<forall>c\<in>set (fetch_calls ?st1). set (call_urls c) \<subseteq> A"
    using Cons.prems(4) u by simp
  show ?case
  proof (cases "fetcher i u opts")
    case (Inl e)
    from fetch_loop_Cons_fail[OF Cons.prems(1) Inl] Cons.prems(2,5) c1 show ?thesis by simp
  next
    case (Inr f)
    let ?st3 = "record_fetch enc u f ?st1"
    have "dom (fetchedByUrl ?st3) \<subseteq> A" using Cons.prems(2) u by simp
    moreover have "set us \<subseteq> A" using Cons.prems(3) by simp
    moreover have "\<forall>c\<in>set (fetch_calls ?st3). set (call_urls c) \<subseteq> A"
      using c1 by simp
    moreover have "hit_url ` set (loop_hits ?st3) \<subseteq> A"
      using Cons.prems(5) u by (auto simp: record_fetch_hits split: option.splits)
    ultimately show ?thesis by (rule Cons.IH[OF fetch_loop_Cons[OF Cons.prems(1) Inr]])
  qed
qed

subsection \<open>The handler, path by path\<close>

lemma usage_phase_calls:
  "usage_phase svc g resp hs = (ul, cs, svc') \<Longrightarrow>
   cs = (if hs = [] then [] else [Call_logUsage \<lparr>gen_id = g, hits = hs\<rparr>])"
  by (auto simp: usage_phase_def Let_def split: if_splits prod.splits sum.splits)

lemma usage_phase_log:
  "hs \<noteq> [] \<Longrightarrow>
   fst (usage_phase svc g resp hs) =
     (case fst (logUsage svc \<lparr>gen_id = g, hits = hs\<rparr> resp) of
        Inl e \<Rightarrow> Some \<lparr>ok = False, log_error = Some (error_text e), log_gen_id = g,
                       log_hits = length hs\<rparr>
      | Inr done \<Rightarrow> Some \<lparr>ok = True, log_error = None, log_gen_id = g, log_hits = length hs\<rparr>)"
  by (auto simp: usage_phase_def Let_def split: prod.splits sum.splits)

lemma handle_call_fetch:
  assumes "name = ''copyrightish-exa-search''" and "arg_query args \<noteq> []" and "fetch_flag args"
    and "exa_search env (search_request args) = Inr searchResp"
    and "fetch_loop (licensedFetch env) (tiktoken env) (fetch_options_of args) 0
           (searched_urls env args) fetch_init = (None, st)"
  shows "\<exists>licenseMap svc1 ul cs svc2.
           license_phase svc (license_env env) (arrival env) (searched_urls env args) =
             (Inr licenseMap, svc1) \<and> config svc1 = config svc \<and>
           usage_phase svc1 (randomUUID env) (usage_response env) (loop_hits st) = (ul, cs, svc2) \<and>
           handle_call svc env name args =
             \<lparr>reply = Inr (compose args searchResp (searched_results env args) licenseMap
                             (Some (fetchedByUrl st)) ul),
              calls = (Call_search (search_request args) #
                         map Call_checkLicense (searched_urls env args))
                      @ fetch_calls st @ cs,
              ledger = svc2\<rparr>"
proof -
  let ?rs = "searched_results env args"
  let ?urls = "searched_urls env args"
  have rs: "?rs = (case search_results searchResp of None \<Rightarrow> [] | Some xs \<Rightarrow> xs)"
    by (simp add: searched_results_def assms(4))
  obtain lm svc1 where lp:
    "license_phase svc (license_env env) (arrival env) ?urls = (Inr lm, svc1)"
    and cfg: "config svc1 = config svc"
    using license_phase_Inr by blast
  obtain ul cs svc2 where up:
    "usage_phase svc1 (randomUUID env) (usage_response env) (loop_hits st) = (ul, cs, svc2)"
    by (cases "usage_phase svc1 (randomUUID env) (usage_response env) (loop_hits st)")
  have "handle_call svc env name args =
      \<lparr>reply = Inr (compose args searchResp ?rs lm (Some (fetchedByUrl st)) ul),
       calls = (Call_search (search_request args) # map Call_checkLicense ?urls)
                 @ fetch_calls st @ cs,
       ledger = svc2\<rparr>"
    using assms(1-5) lp up
    by (simp add: handle_call_def Let_def searched_urls_def rs[symmetric])
  with lp cfg up show ?thesis by blast
qed

lemma handle_call_calls:
  assumes "Call_logUsage batch \<in> set (calls (handle_call svc env name args))"
  shows "\<exists>st. fetch_loop (licensedFetch env) (tiktoken env) (fetch_options_of args) 0
                 (searched_urls env args) fetch_init = (None, st) \<and>
              hits batch = loop_hits st \<and> gen_id batch = randomUUID env"
proof -
  let ?req = "search_request args"
  from assms obtain resp where resp: "exa_search env ?req = Inr resp"
    by (cases "exa_search env ?req") (auto simp: handle_call_def Let_def split: if_splits)
  let ?rs = "case search_results resp of None \<Rightarrow> [] | Some xs \<Rightarrow> xs"
  have urls: "searched_urls env args = result_urls ?rs"
    by (simp add: searched_urls_def searched_results_def resp)
  obtain lm svc1 where lp:
    "license_phase svc (license_env env) (arrival env) (result_urls ?rs) = (Inr lm, svc1)"
    using license_phase_Inr by blast
  obtain r st where fl: "fetch_loop (licensedFetch env) (tiktoken env) (fetch_options_of args) 0
                 (result_urls ?rs) fetch_init = (r, st)"
    by (cases "fetch_loop (licensedFetch env) (tiktoken env) (fetch_options_of args) 0
                 (result_urls ?rs) fetch_init")
  have nolog: "\<forall>c\<in>set (fetch_calls st). \<not> is_logUsage c"
    using fetch_loop_calls[OF fl] by (simp add: fetch_init_def)
  obtain ul cs svc2 where up:
    "usage_phase svc1 (randomUUID env) (usage_response env) (loop_hits st) = (ul, cs, svc2)"
    by (cases "usage_phase svc1 (randomUUID env) (usage_response env) (loop_hits st)")
  note cs = usage_phase_calls[OF up]
  have "r = None \<and> batch = \<lparr>gen_id = randomUUID env, hits = loop_hits st\<rparr>"
    using assms resp lp fl up nolog cs
    by (cases r)
       (auto simp: handle_call_def Let_def fetch_init_def split: if_splits)
  then show ?thesis using fl urls by auto
qed

lemma handle_call_reply:
  assumes "reply (handle_call svc env name args) = Inr body"
  shows "\<exists>licenseMap svc1 fetchedMap.
           license_phase svc (license_env env) (arrival env) (searched_urls env args) =
             (Inr licenseMap, svc1) \<and>
           results body = map (enrich licenseMap fetchedMap) (searched_results env args) \<and>
           (case fetchedMap of None \<Rightarrow> True | Some m \<Rightarrow> dom m \<subseteq> set (searched_urls env args)) \<and>
           (\<forall>c\<in>set (calls (handle_call svc env name args)).
              set (call_urls c) \<subseteq> set (searched_urls env args))"
proof -
  let ?req = "search_request args"
  let ?urls = "searched_urls env args"
  from assms have nm: "name = ''copyrightish-exa-search''" and q: "arg_query args \<noteq> []"
    by (auto simp: handle_call_def split: if_splits)
  from assms nm q obtain resp where resp: "exa_search env ?req = Inr resp"
    by (cases "exa_search env ?req") (auto simp: handle_call_def Let_def)
  have rs: "searched_results env args = (case search_results resp of None \<Rightarrow> [] | Some xs \<Rightarrow> xs)"
    by (simp add: searched_results_def resp)
  obtain lm svc1 where lp:
    "license_phase svc (license_env env) (arrival env) ?urls = (Inr lm, svc1)"
    using license_phase_Inr by blast
  have c1: "\<forall>c\<in>set (Call_search ?req # map Call_checkLicense ?urls). set (call_urls c) \<subseteq> set ?urls"
    by auto
  show ?thesis
  proof (cases "fetch_flag args")
    case False
    then have "handle_call svc env name args =
        \<lparr>reply = Inr (compose args resp (searched_results env args) lm None None),
         calls = Call_search ?req # map Call_checkLicense ?urls, ledger = svc1\<rparr>"
      using nm q resp lp
      by (simp add: handle_call_def Let_def searched_urls_def rs[symmetric])
    with assms lp c1 show ?thesis
      by (intro exI[of _ lm] exI[of _ svc1] exI[of _ None]) (auto simp: compose_def)
  next
    case True
    obtain r st where fl: "fetch_loop (licensedFetch env) (tiktoken env) (fetch_options_of args) 0
                 ?urls fetch_init = (r, st)"
      by (cases "fetch_loop (licensedFetch env) (tiktoken env) (fetch_options_of args) 0
                 ?urls fetch_init")
    have r: "r = None"
    proof (cases r)
      case (Some e)
      with assms nm q resp lp fl True show ?thesis
        by (simp add: handle_call_def Let_def searched_urls_def rs[symmetric])
    qed simp
    from fetch_loop_urls[OF fl, of "set ?urls"]
    have inv: "dom (fetchedByUrl st) \<subseteq> set ?urls"
      "\<forall>c\<in>set (fetch_calls st). set (call_urls c) \<subseteq> set ?urls"
      "hit_url ` set (loop_hits st) \<subseteq> set ?urls"
      by (simp_all add: fetch_init_def)
    from handle_call_fetch[OF nm q True resp fl[unfolded r], of svc]
    obtain lm' svc1' ul cs svc2 where
      lp': "license_phase svc (license_env env) (arrival env) ?urls = (Inr lm', svc1')" and
      up: "usage_phase svc1' (randomUUID env) (usage_response env) (loop_hits st) = (ul, cs, svc2)" and
      run: "handle_call svc env name args =
             \<lparr>reply = Inr (compose args resp (searched_results env args) lm'
                             (Some (fetchedByUrl st)) ul),
              calls = (Call_search ?req # map Call_checkLicense ?urls) @ fetch_calls st @ cs,
              ledger = svc2\<rparr>"
      by blast
    have cs: "\<forall>c\<in>set cs. set (call_urls c) \<subseteq> set ?urls"
      using usage_phase_calls[OF up] inv(3) by (auto split: if_splits)
    have "\<forall>c\<in>set (calls (handle_call svc env name args)). set (call_urls c) \<subseteq> set ?urls"
      using c1 inv(2) cs by (auto simp: run)
    with assms lp' inv(1) show ?thesis
      by (intro exI[of _ lm'] exI[of _ svc1'] exI[of _ "Some (fetchedByUrl st)"])
         (auto simp: run compose_def)
  qed
qed

lemma usage_phase_ledger:
  "snd (snd (usage_phase svc g resp hs)) = svc \<or>
   snd (snd (usage_phase svc g resp hs)) = snd (logUsage svc \<lparr>gen_id = g, hits = hs\<rparr> resp)"
  by (auto simp: usage_phase_def Let_def split: prod.splits sum.splits)

lemma reachable_handle_call:
  assumes "service_reachable svc"
  shows "service_reachable (ledger (handle_call svc env name args))"
proof (cases "name \<noteq> ''copyrightish-exa-search'' \<or> arg_query args = []")
  case True
  then show ?thesis using assms by (auto simp: handle_call_def)
next
  case False
  let ?req = "search_request args"
  show ?thesis
  proof (cases "exa_search env ?req")
    case (Inl e)
    then show ?thesis using False assms by (simp add: handle_call_def Let_def)
  next
    case (Inr searchResp)
    let ?rs = "case search_results searchResp of None \<Rightarrow> [] | Some xs \<Rightarrow> xs"
    let ?urls = "result_urls ?rs"
    obtain r svc1 where lp: "license_phase svc (license_env env) (arrival env) ?urls = (r, svc1)"
      by (cases "license_phase svc (license_env env) (arrival env) ?urls")
    have svc1: "service_reachable svc1"
      using reachable_license_phase[OF assms, of "license_env env" "arrival env" ?urls] lp by simp
    obtain fe st where fl:
      "fetch_loop (licensedFetch env) (tiktoken env) (fetch_options_of args) 0 ?urls fetch_init
         = (fe, st)"
      by (cases "fetch_loop (licensedFetch env) (tiktoken env) (fetch_options_of args) 0 ?urls
                   fetch_init")
    obtain ul cs svc2 where up:
      "usage_phase svc1 (randomUUID env) (usage_response env) (loop_hits st) = (ul, cs, svc2)"
      by (cases "usage_phase svc1 (randomUUID env) (usage_response env) (loop_hits st)")
    have svc2: "service_reachable svc2"
      using usage_phase_ledger[of svc1 "randomUUID env" "usage_response env" "loop_hits st"]
        up svc1 reachable_logUsage[OF svc1] by auto
    have "ledger (handle_call svc env name args) = svc1 \<or>
          ledger (handle_call svc env name args) = svc2"
      using False Inr lp fl up
      by (cases r; cases fe) (simp_all add: handle_call_def Let_def)
    with svc1 svc2 show ?thesis by auto
  qed
qed

subsection \<open>The example run\<close>

lemma demo_env_simps [simp]:
  "exa_search (demo_env rs) req =
     Inr \<lparr>search_results = Some rs, autopromptString = None, requestId = Some ''req-1''\<rparr>"
  "licensedFetch (demo_env rs) i u opts = (if u = demo_url then Inr page_ok else Inr (page_invalid u))"
  "tiktoken (demo_env rs) = None"
  "randomUUID (demo_env rs) = ''gen-1''"
  "usage_response (demo_env rs) = Inr JNull"
  by (simp_all add: demo_env_def)

lemma demo_searched [simp]:
  "searched_results (demo_env rs) args = rs"
  by (simp add: searched_results_def)

lemma demo_urls_three: "searched_urls (demo_env hits_three) args = [demo_url]"
  by (simp add: searched_urls_def result_urls_def hits_three_def search_hit_def demo_url_def)

lemma demo_urls_undefined: "searched_urls (demo_env hits_undefined) args = [''undefined'']"
  by (simp add: searched_urls_def result_urls_def hits_undefined_def search_hit_def)

lemma demo_loop_three:
  "fetch_loop (licensedFetch (demo_env hits_three)) (tiktoken (demo_env hits_three))
     (fetch_options_of demo_args) 0 (searched_urls (demo_env hits_three) demo_args) fetch_init =
   (None, \<lparr>fetchedByUrl = [demo_url \<mapsto> page_ok],
           loop_hits = [\<lparr>hit_url = demo_url, tokens = 3\<rparr>],
           fetch_calls = [Call_licensedFetchText demo_url (fetch_options_of demo_args)]\<rparr>)"
  by (simp add: demo_urls_three fetch_init_def record_fetch_def page_ok_def estimate_def Let_def)

lemma demo_loop_undefined:
  "fetch_loop (licensedFetch (demo_env hits_undefined)) (tiktoken (demo_env hits_undefined))
     (fetch_options_of demo_args) 0 (searched_urls (demo_env hits_undefined) demo_args) fetch_init =
   (None, \<lparr>fetchedByUrl = [''undefined'' \<mapsto> page_invalid ''undefined''],
           loop_hits = [],
           fetch_calls = [Call_licensedFetchText ''undefined'' (fetch_options_of demo_args)]\<rparr>)"
  by (simp add: demo_urls_undefined fetch_init_def record_fetch_def page_invalid_def Let_def
        demo_url_def)

lemma demo_args_simps [simp]: "arg_query demo_args \<noteq> []" "fetch_flag demo_args"
  by (simp_all add: demo_args_def)

lemma demo_logUsage:
  "fst (logUsage demo_service p r) =
     Inl (JsError ''Error'' ''COPYRIGHTSH_LEDGER_API_KEY is required for /api/v1/usage/log'')"
  by (simp add: logUsage_def truthy_apiKey_def demo_service_def demo_config_def)

subsection \<open>The usage batch\<close>

text \<open>
  C3. Every Usage Batch the handler hands to \<^verbatim>\<open>logUsage\<close> holds only hits with
  \<open>tokens > 0\<close>, each for a URL of the search whose fetch in the loop returned a non-empty
  content body with a status in \<open>[200, 300)\<close>; the tokens are the estimate of that body. So
  no hit with \<open>tokens \<le> 0\<close>, and none for a fetch with a status outside the range, is ever
  in a batch.
\<close>

theorem usage_batch_hits_justified:
  assumes "Call_logUsage batch \<in> set (calls (handle_call svc env name args))"
  shows "\<forall>h\<in>set (hits batch).
           0 < tokens h \<and>
           (\<exists>j f body. j < length (searched_urls env args) \<and>
              searched_urls env args ! j = hit_url h \<and>
              licensedFetch env j (hit_url h) (fetch_options_of args) = Inr f \<and>
              content_text f = Some body \<and> body \<noteq> [] \<and>
              200 \<le> status f \<and> status f < 300 \<and>
              tokens h = estimate (tiktoken env) body)"
proof -
  from handle_call_calls[OF assms] obtain st where
    fl: "fetch_loop (licensedFetch env) (tiktoken env) (fetch_options_of args) (length ([]::string list))
           (searched_urls env args) fetch_init = (None, st)"
    and h: "hits batch = loop_hits st"
    by auto
  have "\<forall>h\<in>set (loop_hits st).
      hit_justified (licensedFetch env) (tiktoken env) (fetch_options_of args)
        ([] @ searched_urls env args) h"
    by (rule fetch_loop_hits[OF fl]) (simp add: fetch_init_def)
  then show ?thesis by (simp add: h hit_justified_def)
qed

theorem usage_batch_hits_justified_witness:
  "Call_logUsage \<lparr>gen_id = ''gen-1'', hits = [\<lparr>hit_url = demo_url, tokens = 3\<rparr>]\<rparr>
     \<in> set (calls (handle_call demo_service (demo_env hits_three) tool_name demo_args)) \<and>
   (\<exists>j f body. j < length (searched_urls (demo_env hits_three) demo_args) \<and>
      searched_urls (demo_env hits_three) demo_args ! j = demo_url \<and>
      licensedFetch (demo_env hits_three) j demo_url (fetch_options_of demo_args) = Inr f \<and>
      content_text f = Some body \<and> body \<noteq> [] \<and> 200 \<le> status f \<and> status f < 300 \<and>
      (3::nat) = estimate (tiktoken (demo_env hits_three)) body)"
proof -
  let ?env = "demo_env hits_three"
  let ?batch = "\<lparr>gen_id = ''gen-1'', hits = [\<lparr>hit_url = demo_url, tokens = 3\<rparr>]\<rparr>"
  let ?run = "handle_call demo_service ?env tool_name demo_args"
  from handle_call_fetch[OF tool_name_def demo_args_simps demo_env_simps(1) demo_loop_three,
      of demo_service]
  obtain ul cs svc1 svc2 where
    up: "usage_phase svc1 (randomUUID ?env) (usage_response ?env)
           [\<lparr>hit_url = demo_url, tokens = 3\<rparr>] = (ul, cs, svc2)" and
    calls: "calls ?run = (Call_search (search_request demo_args) #
                         map Call_checkLicense (searched_urls ?env demo_args))
                      @ [Call_licensedFetchText demo_url (fetch_options_of demo_args)] @ cs"
    by auto
  have "cs = [Call_logUsage ?batch]" using usage_phase_calls[OF up] by simp
  then have mem: "Call_logUsage ?batch \<in> set (calls ?run)" by (simp add: calls)
  from usage_batch_hits_justified[OF mem] show ?thesis using mem by simp
qed

subsection \<open>One call of the Usage Recorder\<close>

text \<open>
  C7. For a search-with-fetch request (the tool's name, a query, \<^verbatim>\<open>fetch\<close> set, a search
  that answered) whose fetch loop has run to its end with at least one usage hit, the
  handler calls \<^verbatim>\<open>logUsage\<close> exactly once, with the batch of these hits. Whatever that
  call does, the handler returns a response body whose results are the search results
  enriched with licenses and fetches; when the call fails with \<open>e\<close>, the body's
  \<^verbatim>\<open>usage_log\<close> has \<open>ok = False\<close> and the text of \<open>e\<close> as its error. (The loop runs to its
  end unless \<^verbatim>\<open>licensedFetchText\<close> rejects, which the specification excludes; the handler
  has no \<^verbatim>\<open>catch\<close> around it.)
\<close>

theorem usage_logged_once:
  assumes "name = ''copyrightish-exa-search''" and "arg_query args \<noteq> []" and "fetch_flag args"
    and "exa_search env (search_request args) = Inr searchResp"
    and "fetch_loop (licensedFetch env) (tiktoken env) (fetch_options_of args) 0
           (searched_urls env args) fetch_init = (None, st)"
    and "loop_hits st \<noteq> []"
  shows "\<exists>licenseMap svc1 body.
           license_phase svc (license_env env) (arrival env) (searched_urls env args) =
             (Inr licenseMap, svc1) \<and>
           reply (handle_call svc env name args) = Inr body \<and>
           results body =
             map (enrich licenseMap (Some (fetchedByUrl st))) (searched_results env args) \<and>
           length (filter is_logUsage (calls (handle_call svc env name args))) = 1 \<and>
           Call_logUsage \<lparr>gen_id = randomUUID env, hits = loop_hits st\<rparr>
             \<in> set (calls (handle_call svc env name args)) \<and>
           usage_log body =
             (case fst (logUsage svc \<lparr>gen_id = randomUUID env, hits = loop_hits st\<rparr>
                          (usage_response env)) of
                Inl e \<Rightarrow> Some \<lparr>ok = False, log_error = Some (error_text e),
                               log_gen_id = randomUUID env, log_hits = length (loop_hits st)\<rparr>
              | Inr done \<Rightarrow> Some \<lparr>ok = True, log_error = None,
                               log_gen_id = randomUUID env, log_hits = length (loop_hits st)\<rparr>)"
proof -
  let ?rs = "searched_results env args"
  let ?urls = "searched_urls env args"
  have rs: "?rs = (case search_results searchResp of None \<Rightarrow> [] | Some xs \<Rightarrow> xs)"
    by (simp add: searched_results_def assms(4))
  obtain lm svc1 where lp:
    "license_phase svc (license_env env) (arrival env) ?urls = (Inr lm, svc1)"
    and cfg: "config svc1 = config svc"
    using license_phase_Inr by blast
  obtain ul cs svc2 where up:
    "usage_phase svc1 (randomUUID env) (usage_response env) (loop_hits st) = (ul, cs, svc2)"
    by (cases "usage_phase svc1 (randomUUID env) (usage_response env) (loop_hits st)")
  have cs: "cs = [Call_logUsage \<lparr>gen_id = randomUUID env, hits = loop_hits st\<rparr>]"
    using usage_phase_calls[OF up] assms(6) by simp
  have ul: "ul = (case fst (logUsage svc \<lparr>gen_id = randomUUID env, hits = loop_hits st\<rparr>
                          (usage_response env)) of
                Inl e \<Rightarrow> Some \<lparr>ok = False, log_error = Some (error_text e),
                               log_gen_id = randomUUID env, log_hits = length (loop_hits st)\<rparr>
              | Inr done \<Rightarrow> Some \<lparr>ok = True, log_error = None,
                               log_gen_id = randomUUID env, log_hits = length (loop_hits st)\<rparr>)"
    using usage_phase_log[OF assms(6), of svc1 "randomUUID env" "usage_response env"] up
    by (simp add: logUsage_config[OF cfg])
  have nolog: "\<forall>c\<in>set (fetch_calls st). \<not> is_logUsage c"
    using fetch_loop_calls[OF assms(5)] by (simp add: fetch_init_def)
  then have f0: "filter is_logUsage (fetch_calls st) = []"
    by (simp add: filter_empty_conv)
  have f1: "filter is_logUsage (map Call_checkLicense xs) = []" for xs
    by (induction xs) simp_all
  have run: "handle_call svc env name args =
      \<lparr>reply = Inr (compose args searchResp ?rs lm (Some (fetchedByUrl st)) ul),
       calls = (Call_search (search_request args) # map Call_checkLicense ?urls)
                 @ fetch_calls st @ cs,
       ledger = svc2\<rparr>"
    using assms(1-5) lp up
    by (simp add: handle_call_def Let_def searched_urls_def rs[symmetric])
  show ?thesis
    using lp ul
    by (simp add: run compose_def cs f0 f1)
qed

theorem usage_logged_once_witness:
  "tool_name = ''copyrightish-exa-search'' \<and> arg_query demo_args \<noteq> [] \<and> fetch_flag demo_args \<and>
   length (filter is_logUsage
      (calls (handle_call demo_service (demo_env hits_three) tool_name demo_args))) = 1 \<and>
   (\<exists>body. reply (handle_call demo_service (demo_env hits_three) tool_name demo_args) = Inr body \<and>
      map base (results body) = hits_three \<and>
      usage_log body =
        Some \<lparr>ok = False,
              log_error = Some ''COPYRIGHTSH_LEDGER_API_KEY is required for /api/v1/usage/log'',
              log_gen_id = ''gen-1'', log_hits = 1\<rparr>)"
proof -
  have ne: "loop_hits \<lparr>fetchedByUrl = [demo_url \<mapsto> page_ok],
           loop_hits = [\<lparr>hit_url = demo_url, tokens = 3\<rparr>],
           fetch_calls = [Call_licensedFetchText demo_url (fetch_options_of demo_args)]\<rparr> \<noteq> []"
    by simp
  from usage_logged_once[OF tool_name_def demo_args_simps demo_env_simps(1) demo_loop_three ne,
      of demo_service]
  show ?thesis
    by (auto simp: demo_logUsage error_text_def tool_name_def enrich_def comp_def)
qed

subsection \<open>Search results without a URL\<close>

text \<open>
  What holds of C10. Whenever the handler returns a response body: the body has one
  entry per search result, in the order of the search; every license check, fetch and
  usage hit is for a non-empty URL of some search result, so a result without a URL takes
  part in none; and an entry whose result has no URL has no license, and no fetched
  field either when the URL is the empty string or when no search result has the URL
  \<^verbatim>\<open>"undefined"\<close>.
\<close>

lemma results_without_url:
  assumes "reply (handle_call svc env name args) = Inr body"
  shows "map base (results body) = searched_results env args \<and>
         (\<forall>c\<in>set (calls (handle_call svc env name args)). \<forall>u\<in>set (call_urls c).
            u \<noteq> [] \<and> (\<exists>r\<in>set (searched_results env args). res_url r = Some u)) \<and>
         (\<forall>e\<in>set (results body). no_url (base e) \<longrightarrow>
            res_license e = None \<and>
            (res_url (base e) = Some [] \<or> ''undefined'' \<notin> set (searched_urls env args) \<longrightarrow>
               fetched e = None))"
proof -
  let ?urls = "searched_urls env args"
  from handle_call_reply[OF assms] obtain lm svc1 fm where
    lp: "license_phase svc (license_env env) (arrival env) ?urls = (Inr lm, svc1)" and
    res: "results body = map (enrich lm fm) (searched_results env args)" and
    fm: "case fm of None \<Rightarrow> True | Some m \<Rightarrow> dom m \<subseteq> set ?urls" and
    cs: "\<forall>c\<in>set (calls (handle_call svc env name args)). set (call_urls c) \<subseteq> set ?urls"
    by blast
  have dom_lm: "dom lm \<subseteq> set ?urls" using lp by (rule license_phase_dom)
  have nonempty: "[] \<notin> set ?urls" by (simp add: searched_urls_def result_urls_iff)
  have 1: "map base (results body) = searched_results env args"
    by (simp add: res enrich_def comp_def)
  have 2: "\<forall>c\<in>set (calls (handle_call svc env name args)). \<forall>u\<in>set (call_urls c).
            u \<noteq> [] \<and> (\<exists>r\<in>set (searched_results env args). res_url r = Some u)"
  proof (intro ballI)
    fix c u
    assume "c \<in> set (calls (handle_call svc env name args))" "u \<in> set (call_urls c)"
    with cs have "u \<in> set (result_urls (searched_results env args))"
      unfolding searched_urls_def by blast
    then show "u \<noteq> [] \<and> (\<exists>r\<in>set (searched_results env args). res_url r = Some u)"
      by (simp add: result_urls_iff)
  qed
  have 3: "res_license (enrich lm fm r) = None \<and>
            (res_url r = Some [] \<or> ''undefined'' \<notin> set ?urls \<longrightarrow> fetched (enrich lm fm r) = None)"
    if "no_url r" for r
  proof -
    have "lm [] = None" using dom_lm nonempty by blast
    then have a: "res_license (enrich lm fm r) = None"
      using that by (auto simp: enrich_def no_url_def)
    have b: "fetched (enrich lm fm r) = None"
      if "res_url r = Some [] \<or> ''undefined'' \<notin> set ?urls"
    proof (cases fm)
      case None
      then show ?thesis by (simp add: enrich_def)
    next
      case (Some m)
      with fm have d: "dom m \<subseteq> set ?urls" by simp
      have "property_key (res_url r) \<notin> set ?urls"
        using that \<open>no_url r\<close> nonempty by (auto simp: property_key_def no_url_def)
      then have "m (property_key (res_url r)) = None" using d by blast
      then show ?thesis by (simp add: enrich_def Some)
    qed
    show ?thesis using a b by blast
  qed
  have 4: "\<forall>e\<in>set (results body). no_url (base e) \<longrightarrow>
            res_license e = None \<and>
            (res_url (base e) = Some [] \<or> ''undefined'' \<notin> set ?urls \<longrightarrow> fetched e = None)"
  proof (intro ballI impI)
    fix e assume "e \<in> set (results body)" and n: "no_url (base e)"
    then obtain r where e: "e = enrich lm fm r" by (auto simp: res)
    have "base e = r" by (simp add: e enrich_def)
    with n have "no_url r" by simp
    from 3[OF this] show "res_license e = None \<and>
            (res_url (base e) = Some [] \<or> ''undefined'' \<notin> set ?urls \<longrightarrow> fetched e = None)"
      by (simp add: e \<open>base e = r\<close>[unfolded e])
  qed
  from 1 2 4 show ?thesis by blast
qed

lemma results_without_url_example:
  "(\<exists>body. reply (handle_call demo_service (demo_env hits_three) tool_name demo_args) = Inr body) \<and>
   map base (reply_results (handle_call demo_service (demo_env hits_three) tool_name demo_args))
     = hits_three \<and>
   map res_license (reply_results (handle_call demo_service (demo_env hits_three) tool_name demo_args))
     ! 1 = None \<and>
   map fetched (reply_results (handle_call demo_service (demo_env hits_three) tool_name demo_args))
     ! 1 = None \<and>
   map res_license (reply_results (handle_call demo_service (demo_env hits_three) tool_name demo_args))
     ! 2 = None \<and>
   map fetched (reply_results (handle_call demo_service (demo_env hits_three) tool_name demo_args))
     ! 2 = None"
proof -
  let ?env = "demo_env hits_three"
  let ?run = "handle_call demo_service ?env tool_name demo_args"
  from handle_call_fetch[OF tool_name_def demo_args_simps demo_env_simps(1) demo_loop_three,
      of demo_service]
  obtain body where body: "reply ?run = Inr body" by auto
  note t = results_without_url[OF body]
  have len: "length (results body) = 3"
    using t[THEN conjunct1] by (metis demo_searched length_map hits_three_def length_Cons list.size(3) numeral_3_eq_3)
  have b: "map base (results body) = hits_three" using t by simp
  have e1: "results body ! 1 \<in> set (results body)" "results body ! 2 \<in> set (results body)"
    using len by simp_all
  have b1: "base (results body ! 1) = search_hit (Some [])"
    using b len by (metis One_nat_def hits_three_def nth_Cons_0 nth_Cons_Suc nth_map one_less_numeral_iff semiring_norm(77))
  have b2: "base (results body ! 2) = search_hit None"
    using b len by (metis hits_three_def nth_Cons_0 nth_Cons_Suc nth_map numeral_2_eq_2 lessI numeral_3_eq_3)
  have u: "''undefined'' \<notin> set (searched_urls ?env demo_args)"
    by (simp add: demo_urls_three demo_url_def)
  have "res_license (results body ! 1) = None \<and> fetched (results body ! 1) = None"
    using t e1(1) b1 by (simp add: no_url_def search_hit_def)
  moreover have "res_license (results body ! 2) = None \<and> fetched (results body ! 2) = None"
    using t e1(2) b2 u by (simp add: no_url_def search_hit_def)
  ultimately show ?thesis using body b len by (simp add: reply_results_def)
qed

text \<open>
  C10 as stated fails on the code. The search returns two results, the first with the URL
  \<^verbatim>\<open>"undefined"\<close>, the second with no \<^verbatim>\<open>url\<close> field, and the call asks for fetching. The
  loop stores the fetch of the first under the key \<^verbatim>\<open>"undefined"\<close> of the plain object
  \<^verbatim>\<open>fetchedByUrl\<close>; for the second result \<^verbatim>\<open>fetchedByUrl[r.url]\<close> reads that same key, and
  the result without a URL is returned with the first result's fetched record.
\<close>

theorem missing_url_gets_fetched:
  "map (res_url \<circ> base)
     (reply_results (handle_call demo_service (demo_env hits_undefined) tool_name demo_args)) =
     [Some ''undefined'', None] \<and>
   map fetched
     (reply_results (handle_call demo_service (demo_env hits_undefined) tool_name demo_args)) =
     [Some (page_invalid ''undefined''), Some (page_invalid ''undefined'')]"
proof -
  let ?env = "demo_env hits_undefined"
  let ?run = "handle_call demo_service ?env tool_name demo_args"
  from handle_call_fetch[OF tool_name_def demo_args_simps demo_env_simps(1) demo_loop_undefined,
      of demo_service]
  obtain lm ul where "reply ?run = Inr (compose demo_args
       \<lparr>search_results = Some hits_undefined, autopromptString = None, requestId = Some ''req-1''\<rparr>
       hits_undefined lm (Some [''undefined'' \<mapsto> page_invalid ''undefined'']) ul)"
    by auto
  then show ?thesis
    by (simp add: reply_results_def compose_def enrich_def hits_undefined_def search_hit_def
          property_key_def)
qed

section \<open>Properties of the licensed fetch engine\<close>

lemma run_DONE [simp]: "engine_run n env u opts (DONE res) = Some res"
  by (cases n) simp_all

lemma engine_run_mono:
  "engine_run n env u opts s = Some res \<Longrightarrow> engine_run (n + k) env u opts s = Some res"
proof (induction n env u opts s rule: engine_run.induct)
  case (1 n env u opts res)
  then show ?case by simp
qed (simp_all)

text \<open>
  C1. For every invocation of the engine on a URL, the run reaches \<open>DONE\<close> (within five
  steps) with exactly one Licensed Fetch Result: a run of any length that ends gives that
  same result. Its \<open>payment_attempted\<close> is true if and only if the first (direct) fetch
  observed status 402 together with the x402 scheme.
\<close>

theorem licensedFetchText_one_result:
  "\<exists>res. licensedFetchText env u opts = Some res \<and>
      (\<forall>n res'. engine_run n env u opts START = Some res' \<longrightarrow> res' = res) \<and>
      (payment_attempted res \<longleftrightarrow> observed_x402 env u)"
proof -
  have "\<exists>res. engine_run 5 env u opts START = Some res \<and>
          (payment_attempted res \<longleftrightarrow> observed_x402 env u)"
  proof (cases "direct_get env u")
    case (Inl e)
    then show ?thesis
      by (simp add: eval_nat_numeral observed_x402_def failed_result_def)
  next
    case (Inr r)
    show ?thesis
    proof (cases "signals_x402 r")
      case False
      then show ?thesis using Inr
        by (auto simp: eval_nat_numeral observed_x402_def signals_x402_def fetched_result_def)
    next
      case True
      let ?p = "\<lparr>acq_url = u, acq_stage = opt_stage opts,
                 acq_distribution = opt_distribution opts,
                 estimatedTokens = opt_estimatedTokens opts, paymentMethod = Account_balance,
                 paymentProof = None, paymentAmount = None\<rparr>"
      show ?thesis
      proof (cases "acquire_client env ?p")
        case (Inl e)
        then show ?thesis using True \<open>direct_get env u = Inr r\<close>
          by (simp add: eval_nat_numeral observed_x402_def signals_x402_def fetched_result_def)
      next
        case (Inr g)
        then show ?thesis using True \<open>direct_get env u = Inr r\<close>
          by (cases "retry_get env (grant_licensed_url g)")
             (simp_all add: eval_nat_numeral observed_x402_def signals_x402_def
                fetched_result_def failed_result_def)
      qed
    qed
  qed
  then obtain res where res: "engine_run 5 env u opts START = Some res"
      and pa: "payment_attempted res \<longleftrightarrow> observed_x402 env u"
    by blast
  have uniq: "res' = res" if "engine_run n env u opts START = Some res'" for n res'
  proof -
    from that have "engine_run (n + 5) env u opts START = Some res'" by (rule engine_run_mono)
    moreover from res have "engine_run (5 + n) env u opts START = Some res" by (rule engine_run_mono)
    ultimately show ?thesis by (simp add: add.commute)
  qed
  show ?thesis
    unfolding licensedFetchText_def using res pa uniq by blast
qed

theorem licensedFetchText_one_result_witness:
  "observed_x402 demo_engine demo_url \<and>
   (\<exists>res. licensedFetchText demo_engine demo_url (fetch_options_of demo_args) = Some res \<and>
      payment_attempted res)"
proof -
  have "observed_x402 demo_engine demo_url"
    by (simp add: observed_x402_def demo_engine_def signals_x402_def)
  with licensedFetchText_one_result[of demo_engine demo_url "fetch_options_of demo_args"]
  show ?thesis by blast
qed

end
